theory Spec2Isabelle
  imports Complex_Main "HOL-Library.Multiset" "HOL-Library.Sublist"
begin

text \<open>
  A shallow embedding of \<^verbatim>\<open>prepare-email-data.py\<close> (class \<^verbatim>\<open>EmailDataPreparer\<close> and
  \<^verbatim>\<open>main\<close>). A Python \<^verbatim>\<open>str\<close> is a \<open>string\<close> with one list element per character, so
  \<open>length\<close> is Python's \<^verbatim>\<open>len\<close>; the embedding covers the characters with code point
  below 256. Exceptions are values of \<open>error + 'a\<close>.
\<close>

section \<open>Python values and failures\<close>

datatype pyval = VNone | VStr string | VInt int | VTime string

datatype error = AttributeError | TypeError

fun truthy :: "pyval \<Rightarrow> bool" where
  "truthy VNone = False"
| "truthy (VStr s) = (s \<noteq> [])"
| "truthy (VInt i) = (i \<noteq> 0)"
| "truthy (VTime t) = True"

section \<open>Regular expressions\<close>

text \<open>
  The patterns of \<^verbatim>\<open>clean_email_text\<close> are made of literal characters, the dot, the
  white-space class, and the greedy repetitions \<^verbatim>\<open>*\<close> and \<^verbatim>\<open>+\<close> of one character class.
  A pattern is a list of items. \<open>match_here p s\<close> is what Python's backtracking matcher
  does when it tries \<open>p\<close> at the start of \<open>s\<close>: it returns the text left after the match,
  or \<open>None\<close>; a repetition first takes as many characters as it can and gives them back
  one at a time while the rest of the pattern fails. \<open>re_sub p repl s\<close> is
  \<^verbatim>\<open>re.sub(p, repl, s)\<close>: it scans \<open>s\<close> from the left, replaces each match and goes on
  after it, and copies a character where the pattern does not match; an empty match is
  replaced and the scan moves on by one character.

  \<open>is_space\<close> is the white space of the class \<^verbatim>\<open>s\<close> and of \<^verbatim>\<open>str.strip()\<close> among the
  characters below 256. The dot is \<open>Dot\<close> (any character but the newline) without
  \<^verbatim>\<open>re.DOTALL\<close> and \<open>DotAll\<close> with it.
\<close>

abbreviation nl :: char where "nl \<equiv> CHR 0x0A"

definition is_space :: "char \<Rightarrow> bool" where
  "is_space c = (c \<in> set [CHR 0x09, CHR 0x0A, CHR 0x0B, CHR 0x0C, CHR 0x0D,
      CHR 0x1C, CHR 0x1D, CHR 0x1E, CHR 0x1F, CHR 0x20, CHR 0x85, CHR 0xA0])"

datatype cls = Lit char | Dot | DotAll | Space

fun cls_match :: "cls \<Rightarrow> char \<Rightarrow> bool" where
  "cls_match (Lit a) c = (c = a)"
| "cls_match Dot c = (c \<noteq> nl)"
| "cls_match DotAll c = True"
| "cls_match Space c = is_space c"

datatype item = One cls | Star cls | Plus cls

fun match_here :: "item list \<Rightarrow> string \<Rightarrow> string option" where
  "match_here [] s = Some s"
| "match_here (One c # p) [] = None"
| "match_here (One c # p) (x # s) = (if cls_match c x then match_here p s else None)"
| "match_here (Plus c # p) [] = None"
| "match_here (Plus c # p) (x # s) =
     (if cls_match c x then match_here (Star c # p) s else None)"
| "match_here (Star c # p) [] = match_here p []"
| "match_here (Star c # p) (x # s) =
     (if cls_match c x
      then (case match_here (Star c # p) s of
              Some r \<Rightarrow> Some r
            | None \<Rightarrow> match_here p (x # s))
      else match_here p (x # s))"

function re_sub :: "item list \<Rightarrow> string \<Rightarrow> string \<Rightarrow> string" where
  "re_sub p repl [] = (case match_here p [] of Some r \<Rightarrow> repl | None \<Rightarrow> [])"
| "re_sub p repl (x # s) =
     (case match_here p (x # s) of
        Some r \<Rightarrow>
          (if length r < length (x # s) then repl @ re_sub p repl r
           else repl @ x # re_sub p repl s)
      | None \<Rightarrow> x # re_sub p repl s)"
  by pat_completeness auto
termination
  by (relation "measure (\<lambda>(p, repl, s). length s)") auto

definition lits :: "string \<Rightarrow> item list" where
  "lits s = map (\<lambda>c. One (Lit c)) s"

definition py_strip :: "string \<Rightarrow> string" where
  "py_strip s = rev (dropWhile is_space (rev (dropWhile is_space s)))"

text \<open>
  The five patterns, in the order of the source: newline, two dashes, white space,
  newline, anything (with \<^verbatim>\<open>DOTALL\<close>); newline, \<^verbatim>\<open>Sent from my \<close>, anything on the line
  (without \<^verbatim>\<open>DOTALL\<close>); newline, \<^verbatim>\<open>Best regards\<close>, anything (with \<^verbatim>\<open>DOTALL\<close>);
  newline, \<^verbatim>\<open>Thanks,\<close>, anything (with \<^verbatim>\<open>DOTALL\<close>); a newline and one or more newlines.
\<close>

definition sig_delim :: "item list" where
  "sig_delim = lits ''\<newline>--'' @ [Star Space, One (Lit nl), Star DotAll]"

definition sent_from :: "item list" where
  "sent_from = lits ''\<newline>Sent from my '' @ [Star Dot]"

definition best_regards :: "item list" where
  "best_regards = lits ''\<newline>Best regards'' @ [Star DotAll]"

definition thanks :: "item list" where
  "thanks = lits ''\<newline>Thanks,'' @ [Star DotAll]"

definition blank_run :: "item list" where
  "blank_run = [One (Lit nl), Plus (Lit nl)]"

text \<open>
  \<^verbatim>\<open>clean_email_text\<close>: a falsy argument (\<^verbatim>\<open>None\<close>, the empty string) gives the empty
  string; on any other value that is not a string \<^verbatim>\<open>re.sub\<close> raises \<^verbatim>\<open>TypeError\<close>.
\<close>

definition clean_email_text :: "pyval \<Rightarrow> error + string" where
  "clean_email_text text =
     (if \<not> truthy text then Inr []
      else case text of
        VStr s \<Rightarrow>
          (let t = re_sub sig_delim [] s;
               t = re_sub sent_from [] t;
               t = re_sub best_regards [] t;
               t = re_sub thanks [] t;
               t = re_sub blank_run ''\<newline>\<newline>'' t;
               t = py_strip t
           in if length t < 50 then Inr [] else Inr t)
      | _ \<Rightarrow> Inl TypeError)"

section \<open>Text cleaning without regular expressions\<close>

text \<open>
  The same steps as direct list functions, against which the code is compared:
  \<open>cut_at P\<close> removes everything from the first
  position whose remaining text satisfies \<open>P\<close>; \<open>delim_here\<close> says that the text starts
  with a newline, two dashes, and white space up to and including a newline;
  \<open>drop_sent_lines\<close> removes each \<^verbatim>\<open>Sent from my \<close> marker with the rest of its line;
  \<open>squeeze_newlines\<close> replaces each run of two or more newlines by two.
\<close>

fun cut_at :: "(string \<Rightarrow> bool) \<Rightarrow> string \<Rightarrow> string" where
  "cut_at P [] = []"
| "cut_at P (x # xs) = (if P (x # xs) then [] else x # cut_at P xs)"

definition delim_here :: "string \<Rightarrow> bool" where
  "delim_here s = (prefix ''\<newline>--'' s \<and> nl \<in> set (takeWhile is_space (drop 3 s)))"

function drop_sent_lines :: "string \<Rightarrow> string" where
  "drop_sent_lines [] = []"
| "drop_sent_lines (x # xs) =
     (if prefix ''\<newline>Sent from my '' (x # xs)
      then drop_sent_lines (dropWhile (\<lambda>c. c \<noteq> nl) (drop 14 (x # xs)))
      else x # drop_sent_lines xs)"
  by pat_completeness auto
termination
  by (relation "measure length") (auto intro: le_less_trans[OF length_dropWhile_le])

function squeeze_newlines :: "string \<Rightarrow> string" where
  "squeeze_newlines [] = []"
| "squeeze_newlines (x # xs) =
     (if prefix ''\<newline>\<newline>'' (x # xs)
      then ''\<newline>\<newline>'' @ squeeze_newlines (dropWhile (\<lambda>c. c = nl) xs)
      else x # squeeze_newlines xs)"
  by pat_completeness auto
termination
  by (relation "measure length") (auto intro: le_less_trans[OF length_dropWhile_le])

text \<open>
  Text cleaning as the specification words it: each of the four markers removes
  everything from the match to the end of the text.
\<close>

definition spec_clean_text :: "string \<Rightarrow> string" where
  "spec_clean_text x =
     (let t = cut_at delim_here x;
          t = cut_at (prefix ''\<newline>Sent from my '') t;
          t = cut_at (prefix ''\<newline>Best regards'') t;
          t = cut_at (prefix ''\<newline>Thanks,'') t;
          t = py_strip (squeeze_newlines t)
      in if length t < 50 then [] else t)"

text \<open>
  For the proofs about cleaning: a marker \<open>P\<close> occurs in a text when some non-empty rest
  of the text satisfies it; a marker extends when it still holds after more text is
  appended; \<open>clean_core\<close> is the cleaning without the final length test.
\<close>

fun occurs :: "(string \<Rightarrow> bool) \<Rightarrow> string \<Rightarrow> bool" where
  "occurs P [] = False"
| "occurs P (x # xs) = (P (x # xs) \<or> occurs P xs)"

definition clean_core :: "string \<Rightarrow> string" where
  "clean_core x =
     py_strip (squeeze_newlines
       (cut_at (prefix ''\<newline>Thanks,'')
         (cut_at (prefix ''\<newline>Best regards'')
           (drop_sent_lines (cut_at delim_here x)))))"

definition extends :: "(string \<Rightarrow> bool) \<Rightarrow> bool" where
  "extends P = (\<forall>t u. P t \<longrightarrow> P (t @ u))"

section \<open>Email records\<close>

text \<open>
  A fetched email is a \<^verbatim>\<open>dict\<close>; \<^verbatim>\<open>d.get(k, default)\<close> is \<open>py_get\<close>. A value is
  \<^verbatim>\<open>None\<close>, a \<^verbatim>\<open>str\<close>, an \<^verbatim>\<open>int\<close> or a timestamp (carried as the text \<^verbatim>\<open>str()\<close>
  gives for it).
\<close>

type_synonym email = "string \<rightharpoonup> pyval"

definition py_get :: "email \<Rightarrow> string \<Rightarrow> pyval \<Rightarrow> pyval" where
  "py_get d k dflt = (case d k of Some v \<Rightarrow> v | None \<Rightarrow> dflt)"

function nat_digits :: "nat \<Rightarrow> string" where
  "nat_digits n =
     (if n < 10 then [char_of (48 + n)]
      else nat_digits (n div 10) @ [char_of (48 + n mod 10)])"
  by pat_completeness auto
termination
  by (relation "measure id") auto

fun py_str :: "pyval \<Rightarrow> string" where
  "py_str VNone = ''None''"
| "py_str (VStr s) = s"
| "py_str (VInt i) = (if i < 0 then CHR ''-'' # nat_digits (nat (- i)) else nat_digits (nat i))"
| "py_str (VTime t) = t"

record metadata =
  m_email_id :: pyval
  m_subject :: string
  m_sent_at :: string
  m_from :: pyval
  m_to :: pyval

record training_example =
  ex_instruction :: string
  ex_input :: string
  ex_output :: string
  ex_metadata :: metadata

section \<open>Context extraction and example assembly\<close>

definition extract_context :: "email \<Rightarrow> error + string option" where
  "extract_context email =
     (let subject = py_get email ''subject'' (VStr [])
      in case subject of
           VStr s \<Rightarrow>
             (if prefix ''Re: '' s \<or> prefix ''RE: '' s
              then Inr (Some (''Previous email subject: '' @ drop 4 s))
              else Inr None)
         | _ \<Rightarrow> Inl AttributeError)"

text \<open>
  The loop of \<^verbatim>\<open>create_training_examples\<close>, with the list \<^verbatim>\<open>examples\<close> it appends to.
  The subject stored in the metadata is one on which \<^verbatim>\<open>startswith\<close> has succeeded, so it
  is a \<^verbatim>\<open>str\<close> and \<open>py_str\<close> returns it unchanged.
\<close>

definition make_example :: "email \<Rightarrow> string \<Rightarrow> string option \<Rightarrow> training_example" where
  "make_example email text context =
     (let subject = py_get email ''subject'' (VStr []);
          instr = (case context of
                     Some c \<Rightarrow>
                       (if c \<noteq> []
                        then ''Write a professional email reply about: '' @ py_str subject
                               @ ''\<newline>\<newline>Context: '' @ c
                        else ''Write a professional email about: '' @ py_str subject)
                   | None \<Rightarrow> ''Write a professional email about: '' @ py_str subject)
      in \<lparr> ex_instruction = instr,
           ex_input = [],
           ex_output = text,
           ex_metadata = \<lparr> m_email_id = py_get email ''id'' VNone,
                        m_subject = py_str subject,
                        m_sent_at = py_str (py_get email ''sent_at'' (VStr [])),
                        m_from = py_get email ''from_email'' VNone,
                        m_to = py_get email ''to_email'' VNone \<rparr> \<rparr>)"

fun examples_loop :: "training_example list \<Rightarrow> email list \<Rightarrow> error + training_example list" where
  "examples_loop examples [] = Inr examples"
| "examples_loop examples (email # emails) =
     (case clean_email_text (py_get email ''text_plain'' (VStr [])) of
        Inl e \<Rightarrow> Inl e
      | Inr text \<Rightarrow>
          (if text = [] then examples_loop examples emails
           else case extract_context email of
                  Inl e \<Rightarrow> Inl e
                | Inr context \<Rightarrow>
                    examples_loop (examples @ [make_example email text context]) emails))"

definition create_training_examples :: "email list \<Rightarrow> error + training_example list" where
  "create_training_examples emails = examples_loop [] emails"

section \<open>Format conversion\<close>

record alpaca_example =
  a_instruction :: string
  a_input :: string
  a_output :: string

record message =
  role :: string
  content :: string

record chat_example =
  messages :: "message list"

definition system_prompt :: string where
  "system_prompt = ''You are a helpful email assistant. Write emails in a professional, clear, and concise manner matching the user's writing style.''"

fun alpaca_loop :: "alpaca_example list \<Rightarrow> training_example list \<Rightarrow> alpaca_example list" where
  "alpaca_loop alpaca_examples [] = alpaca_examples"
| "alpaca_loop alpaca_examples (ex # examples) =
     alpaca_loop (alpaca_examples @
        [\<lparr> a_instruction = ex_instruction ex, a_input = ex_input ex, a_output = ex_output ex \<rparr>]) examples"

definition create_alpaca_format :: "training_example list \<Rightarrow> alpaca_example list" where
  "create_alpaca_format examples = alpaca_loop [] examples"

fun chat_loop :: "chat_example list \<Rightarrow> training_example list \<Rightarrow> chat_example list" where
  "chat_loop chat_examples [] = chat_examples"
| "chat_loop chat_examples (ex # examples) =
     chat_loop (chat_examples @
        [\<lparr> messages = [\<lparr> role = ''system'', content = system_prompt \<rparr>,
                        \<lparr> role = ''user'', content = ex_instruction ex \<rparr>,
                        \<lparr> role = ''assistant'', content = ex_output ex \<rparr>] \<rparr>]) examples"

definition create_chat_format :: "training_example list \<Rightarrow> chat_example list" where
  "create_chat_format examples = chat_loop [] examples"

section \<open>Splitting\<close>

text \<open>
  \<^verbatim>\<open>random.shuffle\<close> reorders the list in place; the order it picks is the parameter
  \<open>order\<close>, the list of the old positions in their new order (a permutation of the
  positions of the list). \<^verbatim>\<open>train_ratio\<close> is a
  finite \<^verbatim>\<open>float\<close>, whose value is a rational number. The float product
  \<^verbatim>\<open>len(examples) * train_ratio\<close> is the exact product rounded to a float; the rounding
  is the parameter \<open>fl\<close>. \<^verbatim>\<open>int()\<close> truncates towards zero, and a slice bound may be
  negative or beyond the end.
\<close>

definition py_int :: "rat \<Rightarrow> int" where
  "py_int q = (if q < 0 then - \<lfloor>- q\<rfloor> else \<lfloor>q\<rfloor>)"

definition slice_to :: "'a list \<Rightarrow> int \<Rightarrow> 'a list" where
  "slice_to xs k = (if k < 0 then take (nat (int (length xs) + k)) xs else take (nat k) xs)"

definition slice_from :: "'a list \<Rightarrow> int \<Rightarrow> 'a list" where
  "slice_from xs k = (if k < 0 then drop (nat (int (length xs) + k)) xs else drop (nat k) xs)"

definition shuffle :: "nat list \<Rightarrow> 'a list \<Rightarrow> 'a list" where
  "shuffle order examples = map (\<lambda>i. examples ! i) order"

definition split_dataset ::
  "(rat \<Rightarrow> rat) \<Rightarrow> nat list \<Rightarrow> 'a list \<Rightarrow> rat \<Rightarrow> 'a list \<times> 'a list" where
  "split_dataset fl order examples train_ratio =
     (let examples = shuffle order examples;
          split_idx = py_int (fl (of_nat (length examples) * train_ratio));
          train = slice_to examples split_idx;
          val = slice_from examples split_idx
      in (train, val))"

section \<open>Statistics\<close>

definition starts_with_any :: "string list \<Rightarrow> string \<Rightarrow> bool" where
  "starts_with_any ps s = list_ex (\<lambda>p. prefix p s) ps"

fun py_min :: "int list \<Rightarrow> int" where
  "py_min [] = 0"
| "py_min (x # xs) = fold min xs x"

fun py_max :: "int list \<Rightarrow> int" where
  "py_max [] = 0"
| "py_max (x # xs) = fold max xs x"

text \<open>
  The returned \<^verbatim>\<open>dict\<close> keeps its insertion order (\<^verbatim>\<open>main\<close> prints it in that order), so
  it is an association list; \<^verbatim>\<open>{}\<close> is \<open>[]\<close>. \<open>py_min\<close> and \<open>py_max\<close> are only called
  on a non-empty list. The average is the exact quotient, then \<^verbatim>\<open>int()\<close>; the float
  quotient has the same integer part as long as the lengths add up to less than
  \<open>2 ^ 52\<close> characters.
\<close>

definition create_statistics :: "training_example list \<Rightarrow> (string \<times> int) list" where
  "create_statistics examples =
     (if examples = [] then []
      else
        let total = int (length examples);
            avg_length = of_int (sum_list (map (\<lambda>ex. int (length (ex_output ex))) examples)) / of_int total;
            min_length = py_min (map (\<lambda>ex. int (length (ex_output ex))) examples);
            max_length = py_max (map (\<lambda>ex. int (length (ex_output ex))) examples);
            subjects = map (\<lambda>ex. m_subject (ex_metadata ex)) examples;
            reply_count = sum_list (map (\<lambda>s. 1) (filter (starts_with_any [''Re:'', ''RE:'']) subjects));
            forward_count = sum_list (map (\<lambda>s. 1) (filter (starts_with_any [''Fwd:'', ''FW:'']) subjects))
        in [(''total_examples'', total),
            (''avg_email_length'', py_int avg_length),
            (''min_email_length'', min_length),
            (''max_email_length'', max_length),
            (''reply_emails'', reply_count),
            (''forward_emails'', forward_count),
            (''new_emails'', total - reply_count - forward_count)])"

section \<open>Persisting and the driver\<close>

text \<open>
  The file system is a map from paths to contents; a content is the value handed to the
  JSON writer. The environment of a run supplies what the store, the random generator
  and the arithmetic answer: whether the connection opens, the rows of the query (or
  that it raised), the order of each shuffle, the time \<^verbatim>\<open>datetime.now()\<close> returns in
  each call of \<^verbatim>\<open>save_dataset\<close>, and the rounding of a float product. The shuffle and
  the time are given per format, since \<^verbatim>\<open>save_dataset\<close> runs once for each format.
\<close>

datatype formatted = FAlpaca alpaca_example | FChat chat_example | FRaw training_example

record dataset_info =
  d_user_id :: string
  d_total_examples :: int
  d_train_examples :: int
  d_val_examples :: int
  d_format :: string
  d_created_at :: string

datatype file_content =
    JsonLines "formatted list"
  | JsonDoc "formatted list" "formatted list" dataset_info

type_synonym files = "string \<rightharpoonup> file_content"

text \<open>
  \<^verbatim>\<open>Path(args.output) / name\<close>, as the text \<^verbatim>\<open>pathlib\<close> gives for it on a POSIX system:
  the directory is split at the slashes, empty components and \<^verbatim>\<open>.\<close> components are
  dropped, the root is \<^verbatim>\<open>//\<close> after exactly two leading slashes and \<^verbatim>\<open>/\<close> after any other
  number of them, and the components and the file name are joined by single slashes.
  The file names of \<^verbatim>\<open>save_dataset\<close> hold no slash.
\<close>

fun split_slash :: "string \<Rightarrow> string list" where
  "split_slash [] = [[]]"
| "split_slash (c # cs) =
     (if c = CHR ''/'' then [] # split_slash cs
      else case split_slash cs of
             p # ps \<Rightarrow> (c # p) # ps
           | [] \<Rightarrow> [[c]])"

definition path_parts :: "string \<Rightarrow> string list" where
  "path_parts dir = filter (\<lambda>p. p \<noteq> [] \<and> p \<noteq> ''.'') (split_slash dir)"

definition path_root :: "string \<Rightarrow> string" where
  "path_root dir =
     (if prefix ''//'' dir \<and> \<not> prefix ''///'' dir then ''//''
      else if prefix ''/'' dir then ''/''
      else [])"

definition path_join :: "string \<Rightarrow> string \<Rightarrow> string" where
  "path_join dir name = path_root dir @ concat (map (\<lambda>p. p @ ''/'') (path_parts dir)) @ name"

text \<open>The default of \<^verbatim>\<open>train_ratio\<close>: the value of the float written \<^verbatim>\<open>0.9\<close>.\<close>

definition default_train_ratio :: rat where
  "default_train_ratio = 8106479329266893 / 9007199254740992"

definition save_dataset ::
  "(rat \<Rightarrow> rat) \<Rightarrow> string \<Rightarrow> nat list \<Rightarrow> string \<Rightarrow> training_example list \<Rightarrow> string \<Rightarrow> string
     \<Rightarrow> files \<Rightarrow> files" where
  "save_dataset fl user_id order now examples output_dir format fs =
     (let formatted =
            (if format = ''alpaca'' then map FAlpaca (create_alpaca_format examples)
             else if format = ''chat'' then map FChat (create_chat_format examples)
             else map FRaw examples);
          (train, val) = split_dataset fl order formatted default_train_ratio;
          train_file = path_join output_dir (''train_'' @ format @ ''.jsonl'');
          val_file = path_join output_dir (''val_'' @ format @ ''.jsonl'');
          fs = fs(train_file \<mapsto> JsonLines train);
          fs = fs(val_file \<mapsto> JsonLines val);
          json_file = path_join output_dir (''dataset_'' @ format @ ''.json'')
      in fs(json_file \<mapsto> JsonDoc train val
              \<lparr> d_user_id = user_id,
                d_total_examples = int (length formatted),
                d_train_examples = int (length train),
                d_val_examples = int (length val),
                d_format = format,
                d_created_at = now \<rparr>))"

type_synonym row = "pyval \<times> pyval \<times> pyval \<times> pyval \<times> pyval \<times> pyval \<times> pyval \<times> pyval"

record env =
  connect_ok :: bool
  query_rows :: "row list option"
  shuffle_order :: "string \<Rightarrow> nat list"
  clock :: "string \<Rightarrow> string"
  float_round :: "rat \<Rightarrow> rat"

fun email_of_row :: "row \<Rightarrow> email" where
  "email_of_row (r0, r1, r2, r3, r4, r5, r6, r7) =
     [''id'' \<mapsto> r0, ''subject'' \<mapsto> r1, ''text_plain'' \<mapsto> r2, ''text_html'' \<mapsto> r3,
      ''snippet'' \<mapsto> r4, ''sent_at'' \<mapsto> r5, ''from_email'' \<mapsto> r6, ''to_email'' \<mapsto> r7]"

definition fetch_sent_emails :: "env \<Rightarrow> email list" where
  "fetch_sent_emails e = (case query_rows e of None \<Rightarrow> [] | Some rows \<Rightarrow> map email_of_row rows)"

datatype format_choice = OnlyAlpaca | OnlyChat | Both

record args =
  arg_db_url :: string
  arg_user_id :: string
  arg_output :: string
  arg_min_emails :: int
  arg_format :: format_choice

record outcome =
  exit_status :: int
  files_after :: files
  conn_closed :: bool

text \<open>
  \<^verbatim>\<open>main\<close> after \<^verbatim>\<open>parse_args\<close>. \<^verbatim>\<open>sys.exit(1)\<close> and an exception that nothing catches
  both end the process with status 1, after the \<^verbatim>\<open>finally\<close> block has closed the
  connection; reaching the end of \<^verbatim>\<open>main\<close> is status 0.
\<close>

definition main :: "env \<Rightarrow> args \<Rightarrow> files \<Rightarrow> outcome" where
  "main e a fs =
     (if \<not> connect_ok e then \<lparr> exit_status = 1, files_after = fs, conn_closed = False \<rparr>
      else
        let emails = fetch_sent_emails e
        in if int (length emails) < arg_min_emails a
           then \<lparr> exit_status = 1, files_after = fs, conn_closed = True \<rparr>
           else case create_training_examples emails of
                  Inl err \<Rightarrow> \<lparr> exit_status = 1, files_after = fs, conn_closed = True \<rparr>
                | Inr examples \<Rightarrow>
                    if examples = []
                    then \<lparr> exit_status = 1, files_after = fs, conn_closed = True \<rparr>
                    else
                      let stats = create_statistics examples;
                          fs = (if arg_format a \<in> {OnlyAlpaca, Both}
                                then save_dataset (float_round e) (arg_user_id a) (shuffle_order e ''alpaca'')
                                       (clock e ''alpaca'') examples (arg_output a) ''alpaca'' fs
                                else fs);
                          fs = (if arg_format a \<in> {OnlyChat, Both}
                                then save_dataset (float_round e) (arg_user_id a) (shuffle_order e ''chat'')
                                       (clock e ''chat'') examples (arg_output a) ''chat'' fs
                                else fs)
                      in \<lparr> exit_status = 0, files_after = fs, conn_closed = True \<rparr>)"

section \<open>Text cleaning: the regular expressions\<close>

subsection \<open>What each pattern matches\<close>

lemma match_lits:
  "match_here (lits l @ p) s = (if prefix l s then match_here p (drop (length l) s) else None)"
proof (induction l arbitrary: s)
  case Nil
  show ?case by (simp add: lits_def)
next
  case (Cons a l)
  have step: "match_here (lits l @ p) t = (if prefix l t then match_here p (drop (length l) t) else None)" for t
    using Cons.IH by simp
  show ?case
  proof (cases s)
    case Nil
    then show ?thesis by (simp add: lits_def)
  next
    case (Cons b t)
    with step[of t] show ?thesis by (auto simp: lits_def)
  qed
qed

lemma match_star_dotall: "match_here [Star DotAll] s = Some []"
  by (induction s) simp_all

lemma match_star_dot: "match_here [Star Dot] s = Some (dropWhile (\<lambda>c. c \<noteq> nl) s)"
  by (induction s) simp_all

lemma match_star_nl: "match_here [Star (Lit nl)] s = Some (dropWhile (\<lambda>c. c = nl) s)"
  by (induction s) simp_all

lemma nl_is_space: "is_space nl"
  by (simp add: is_space_def)

lemma match_delim_tail:
  "match_here [Star Space, One (Lit nl), Star DotAll] s =
     (if nl \<in> set (takeWhile is_space s) then Some [] else None)"
proof (induction s)
  case Nil
  show ?case by simp
next
  case (Cons x xs)
  show ?case
    using Cons.IH nl_is_space by (auto simp: match_star_dotall)
qed

lemma match_sig_delim: "match_here sig_delim s = (if delim_here s then Some [] else None)"
proof -
  have len: "length ''\<newline>--'' = 3" by simp
  show ?thesis
    unfolding sig_delim_def match_lits len by (simp add: delim_here_def match_delim_tail)
qed

lemma match_sent_from:
  "match_here sent_from s =
     (if prefix ''\<newline>Sent from my '' s then Some (dropWhile (\<lambda>c. c \<noteq> nl) (drop 14 s)) else None)"
proof -
  have len: "length ''\<newline>Sent from my '' = 14" by simp
  show ?thesis
    unfolding sent_from_def match_lits len by (simp add: match_star_dot)
qed

lemma match_best_regards:
  "match_here best_regards s = (if prefix ''\<newline>Best regards'' s then Some [] else None)"
proof -
  have len: "length ''\<newline>Best regards'' = 13" by simp
  show ?thesis
    unfolding best_regards_def match_lits len by (simp add: match_star_dotall)
qed

lemma match_thanks:
  "match_here thanks s = (if prefix ''\<newline>Thanks,'' s then Some [] else None)"
proof -
  have len: "length ''\<newline>Thanks,'' = 8" by simp
  show ?thesis
    unfolding thanks_def match_lits len by (simp add: match_star_dotall)
qed

lemma match_blank_run:
  "match_here blank_run s =
     (if prefix ''\<newline>\<newline>'' s then Some (dropWhile (\<lambda>c. c = nl) (drop 2 s)) else None)"
proof (cases s)
  case Nil
  then show ?thesis by (simp add: blank_run_def)
next
  case (Cons a t)
  then show ?thesis
    by (cases t) (auto simp: blank_run_def match_star_nl)
qed

subsection \<open>What each substitution does\<close>

lemma re_sub_cut:
  assumes "\<And>t. match_here p t = (if P t then Some [] else None)" and "\<not> P []"
  shows "re_sub p [] s = cut_at P s"
  by (induction s) (simp_all add: assms)

lemma sub_sig_delim: "re_sub sig_delim [] s = cut_at delim_here s"
  by (rule re_sub_cut) (simp_all add: match_sig_delim delim_here_def)

lemma sub_best_regards: "re_sub best_regards [] s = cut_at (prefix ''\<newline>Best regards'') s"
  by (rule re_sub_cut) (simp_all add: match_best_regards)

lemma sub_thanks: "re_sub thanks [] s = cut_at (prefix ''\<newline>Thanks,'') s"
  by (rule re_sub_cut) (simp_all add: match_thanks)

lemma sub_sent_from: "re_sub sent_from [] s = drop_sent_lines s"
proof (induction s rule: drop_sent_lines.induct)
  case 1
  show ?case by (simp add: match_sent_from)
next
  case (2 x xs)
  let ?rest = "dropWhile (\<lambda>c. c \<noteq> nl) (drop 14 (x # xs))"
  have shorter: "length ?rest < length (x # xs)"
    by (auto intro: le_less_trans[OF length_dropWhile_le])
  show ?case
  proof (cases "prefix ''\<newline>Sent from my '' (x # xs)")
    case True
    have m: "match_here sent_from (x # xs) = Some ?rest"
      using True by (simp only: match_sent_from if_True)
    have "re_sub sent_from [] (x # xs) = re_sub sent_from [] ?rest"
      using shorter by (simp only: re_sub.simps m option.case if_True append_Nil)
    also have "\<dots> = drop_sent_lines ?rest"
      using "2.IH"(1)[OF True] .
    also have "\<dots> = drop_sent_lines (x # xs)"
      using True by (simp only: drop_sent_lines.simps if_True)
    finally show ?thesis .
  next
    case False
    have m: "match_here sent_from (x # xs) = None"
      using False by (simp only: match_sent_from if_False)
    have "re_sub sent_from [] (x # xs) = x # re_sub sent_from [] xs"
      by (simp only: re_sub.simps m option.case)
    also have "\<dots> = x # drop_sent_lines xs"
      using "2.IH"(2)[OF False] by simp
    also have "\<dots> = drop_sent_lines (x # xs)"
      using False by (simp only: drop_sent_lines.simps if_False)
    finally show ?thesis .
  qed
qed

lemma sub_blank_run: "re_sub blank_run ''\<newline>\<newline>'' s = squeeze_newlines s"
proof (induction s rule: squeeze_newlines.induct)
  case 1
  show ?case by (simp add: match_blank_run)
next
  case (2 x xs)
  let ?rest = "dropWhile (\<lambda>c. c = nl) xs"
  show ?case
  proof (cases "prefix ''\<newline>\<newline>'' (x # xs)")
    case True
    then obtain ys where xs: "x = nl" "xs = nl # ys"
      by (cases xs) auto
    have rest: "dropWhile (\<lambda>c. c = nl) (drop 2 (x # xs)) = ?rest"
      using xs by simp
    have shorter: "length ?rest < length (x # xs)"
      by (auto intro: le_less_trans[OF length_dropWhile_le])
    have m: "match_here blank_run (x # xs) = Some ?rest"
      using True by (simp only: match_blank_run if_True rest)
    have "re_sub blank_run ''\<newline>\<newline>'' (x # xs) =
            ''\<newline>\<newline>'' @ re_sub blank_run ''\<newline>\<newline>'' ?rest"
      using shorter by (simp only: re_sub.simps m option.case if_True)
    also have "\<dots> = ''\<newline>\<newline>'' @ squeeze_newlines ?rest"
      using "2.IH"(1)[OF True] by simp
    also have "\<dots> = squeeze_newlines (x # xs)"
      using True by (simp only: squeeze_newlines.simps if_True)
    finally show ?thesis .
  next
    case False
    have m: "match_here blank_run (x # xs) = None"
      using False by (simp only: match_blank_run if_False)
    have "re_sub blank_run ''\<newline>\<newline>'' (x # xs) = x # re_sub blank_run ''\<newline>\<newline>'' xs"
      by (simp only: re_sub.simps m option.case)
    also have "\<dots> = x # squeeze_newlines xs"
      using "2.IH"(2)[OF False] by simp
    also have "\<dots> = squeeze_newlines (x # xs)"
      using False by (simp only: squeeze_newlines.simps if_False)
    finally show ?thesis .
  qed
qed

text \<open>
  Claim C1, as amended. For every input string, cleaning removes everything from the
  first delimiter line (a newline, \<^verbatim>\<open>--\<close>, white space, a newline) to the end of the text;
  then removes each \<^verbatim>\<open>Sent from my \<close> marker that follows a newline together with the rest
  of its line only, keeping the lines after it; then removes everything from the first
  \<^verbatim>\<open>Best regards\<close> that follows a newline, and from the first \<^verbatim>\<open>Thanks,\<close> that follows a
  newline, to the end of the text; then replaces each run of two or more newlines by
  two, trims white space at both ends, and returns the empty string if fewer than 50
  characters remain.
\<close>

theorem clean_email_text_steps:
  "clean_email_text (VStr x) =
     Inr (let t = cut_at delim_here x;
              t = drop_sent_lines t;
              t = cut_at (prefix ''\<newline>Best regards'') t;
              t = cut_at (prefix ''\<newline>Thanks,'') t;
              t = py_strip (squeeze_newlines t)
          in if length t < 50 then [] else t)"
proof (cases "x = []")
  case True
  then show ?thesis
    by (simp add: clean_email_text_def py_strip_def)
next
  case False
  then show ?thesis
    by (simp add: clean_email_text_def Let_def
        sub_sig_delim sub_sent_from sub_best_regards sub_thanks sub_blank_run)
qed

text \<open>
  A text after a \<^verbatim>\<open>Sent from my\<close> line is kept by the code, where the specification's
  wording removes it.
\<close>

theorem clean_email_text_sent_from_counterexample:
  "clean_email_text (VStr ''Hello team, the quarterly report is attached for your review.\<newline>Sent from my phone\<newline>PS: call me when you get a chance'')
     = Inr ''Hello team, the quarterly report is attached for your review.\<newline>PS: call me when you get a chance''
   \<and> spec_clean_text ''Hello team, the quarterly report is attached for your review.\<newline>Sent from my phone\<newline>PS: call me when you get a chance''
     = ''Hello team, the quarterly report is attached for your review.''
   \<and> clean_email_text (VStr ''Hello team, the quarterly report is attached for your review.\<newline>Sent from my phone\<newline>PS: call me when you get a chance'') \<noteq> Inr (spec_clean_text ''Hello team, the quarterly report is attached for your review.\<newline>Sent from my phone\<newline>PS: call me when you get a chance'')"
proof -
  have code: "clean_email_text (VStr ''Hello team, the quarterly report is attached for your review.\<newline>Sent from my phone\<newline>PS: call me when you get a chance'')
     = Inr ''Hello team, the quarterly report is attached for your review.\<newline>PS: call me when you get a chance''"
    by code_simp
  have spec: "spec_clean_text ''Hello team, the quarterly report is attached for your review.\<newline>Sent from my phone\<newline>PS: call me when you get a chance''
     = ''Hello team, the quarterly report is attached for your review.''"
    by code_simp
  show ?thesis
    unfolding code spec by simp
qed

section \<open>Text cleaning: cleaning twice\<close>

subsection \<open>Occurrences of a marker\<close>

lemma occurs_append_right: "occurs P b \<Longrightarrow> occurs P (a @ b)"
  by (induction a) simp_all

lemma occurs_append_left: "extends P \<Longrightarrow> occurs P a \<Longrightarrow> occurs P (a @ b)"
proof (induction a)
  case Nil
  then show ?case by simp
next
  case (Cons x a)
  from Cons.prems(2) consider "P (x # a)" | "occurs P a" by auto
  then show ?case
  proof cases
    case 1
    with Cons.prems(1) have "P ((x # a) @ b)" unfolding extends_def by blast
    then show ?thesis by simp
  next
    case 2
    with Cons show ?thesis by simp
  qed
qed

lemma cut_at_id_iff: "cut_at P s = s \<longleftrightarrow> \<not> occurs P s"
  by (induction s) simp_all

lemma cut_at_is_prefix: "\<exists>r. s = cut_at P s @ r"
  by (induction s) auto

lemma not_occurs_cut_at_same: "extends P \<Longrightarrow> \<not> occurs P (cut_at P s)"
proof (induction s)
  case Nil
  show ?case by simp
next
  case (Cons x xs)
  show ?case
  proof (cases "P (x # xs)")
    case True
    then show ?thesis by simp
  next
    case False
    obtain r where r: "xs = cut_at P xs @ r"
      using cut_at_is_prefix by blast
    have "\<not> P (x # cut_at P xs)"
    proof
      assume "P (x # cut_at P xs)"
      with Cons.prems have "P ((x # cut_at P xs) @ r)" unfolding extends_def by blast
      with r False show False by simp
    qed
    with False Cons show ?thesis by simp
  qed
qed

lemma not_occurs_cut_at: "extends P \<Longrightarrow> \<not> occurs P s \<Longrightarrow> \<not> occurs P (cut_at Q s)"
  using cut_at_is_prefix[of s Q] occurs_append_left[of P "cut_at Q s"] by metis

lemma not_occurs_dropWhile: "\<not> occurs P s \<Longrightarrow> \<not> occurs P (dropWhile Q s)"
  using occurs_append_right[of P "dropWhile Q s" "takeWhile Q s"] by auto

lemma not_occurs_drop: "\<not> occurs P s \<Longrightarrow> \<not> occurs P (drop n s)"
  using occurs_append_right[of P "drop n s" "take n s"] by auto

subsection \<open>Stripping\<close>

lemma py_strip_is_infix: "\<exists>a b. s = a @ py_strip s @ b"
proof -
  let ?d = "dropWhile is_space s"
  have "rev (takeWhile is_space (rev ?d) @ dropWhile is_space (rev ?d)) = ?d"
    by (simp only: takeWhile_dropWhile_id rev_rev_ident)
  then have d: "py_strip s @ rev (takeWhile is_space (rev ?d)) = ?d"
    by (simp only: rev_append py_strip_def)
  have "s = takeWhile is_space s @ ?d"
    by simp
  with d show ?thesis by metis
qed

lemma not_occurs_py_strip:
  assumes "extends P" and "\<not> occurs P s"
  shows "\<not> occurs P (py_strip s)"
proof
  assume o: "occurs P (py_strip s)"
  obtain a b where s: "s = a @ py_strip s @ b"
    using py_strip_is_infix by blast
  from o assms(1) have "occurs P (py_strip s @ b)"
    by (rule occurs_append_left[rotated])
  then have "occurs P (a @ py_strip s @ b)"
    by (rule occurs_append_right)
  with s assms(2) show False by simp
qed

lemma dropWhile_idle: "xs = [] \<or> \<not> P (hd xs) \<Longrightarrow> dropWhile P xs = xs"
  by (cases xs) auto

lemma dropWhile_head: "dropWhile P xs = [] \<or> \<not> P (hd (dropWhile P xs))"
  using hd_dropWhile by blast

lemma last_dropWhile_same: "dropWhile P xs \<noteq> [] \<Longrightarrow> last (dropWhile P xs) = last xs"
  by (metis last_appendR takeWhile_dropWhile_id)

lemma py_strip_ends:
  "py_strip s = [] \<or> (\<not> is_space (hd (py_strip s)) \<and> \<not> is_space (last (py_strip s)))"
proof (cases "py_strip s = []")
  case True
  then show ?thesis by simp
next
  case False
  let ?d = "dropWhile is_space s"
  let ?e = "dropWhile is_space (rev ?d)"
  have p: "py_strip s = rev ?e"
    by (simp only: py_strip_def)
  have e: "?e \<noteq> []"
    using False p by (metis rev.simps(1))
  have d: "?d \<noteq> []"
    using e by (metis dropWhile.simps(1) rev.simps(1))
  have "\<not> is_space (hd ?e)"
    using e dropWhile_head[of is_space "rev ?d"] by blast
  then have l: "\<not> is_space (last (py_strip s))"
    using e by (metis p last_rev)
  have "\<not> is_space (hd ?d)"
    using d dropWhile_head[of is_space s] by blast
  then have "\<not> is_space (last (rev ?d))"
    using d by (metis last_rev)
  moreover have "last ?e = last (rev ?d)"
    using e by (rule last_dropWhile_same)
  ultimately have "\<not> is_space (hd (py_strip s))"
    using e by (metis p hd_rev)
  with l show ?thesis by simp
qed

lemma py_strip_fixed:
  assumes "t = [] \<or> (\<not> is_space (hd t) \<and> \<not> is_space (last t))"
  shows "py_strip t = t"
proof (cases "t = []")
  case True
  then show ?thesis by (simp add: py_strip_def)
next
  case False
  with assms have h: "\<not> is_space (hd t)" and l: "\<not> is_space (last t)" by simp_all
  have 1: "dropWhile is_space t = t"
    using h by (rule_tac dropWhile_idle) simp
  have "\<not> is_space (hd (rev t))"
    using l False by (simp add: hd_rev)
  then have 2: "dropWhile is_space (rev t) = rev t"
    by (rule_tac dropWhile_idle) simp
  show ?thesis
    by (simp add: py_strip_def 1 2)
qed

lemma py_strip_twice: "py_strip (py_strip s) = py_strip s"
  using py_strip_ends[of s] by (rule py_strip_fixed)

subsection \<open>The markers\<close>

lemma extends_prefix: "extends (prefix l)"
  by (simp add: extends_def)

lemma delim_here_alt:
  "delim_here t \<longleftrightarrow> (\<exists>r. t = ''\<newline>--'' @ r \<and> nl \<in> set (takeWhile is_space r))"
  unfolding delim_here_def prefix_def by auto

lemma set_takeWhile_append: "set (takeWhile P r) \<subseteq> set (takeWhile P (r @ u))"
  by (auto simp: takeWhile_append dest: set_takeWhileD)

lemma extends_delim_here: "extends delim_here"
  unfolding extends_def delim_here_alt
  using set_takeWhile_append[of is_space] by fastforce

lemma prefix_lit_Cons:
  "prefix (nl # w) (x # t) \<longleftrightarrow> x = nl \<and> prefix w t"
  by auto

lemma delim_here_Cons:
  "delim_here (x # t) \<longleftrightarrow> x = nl \<and> (\<exists>r. t = ''--'' @ r \<and> nl \<in> set (takeWhile is_space r))"
  unfolding delim_here_alt by auto

subsection \<open>Removing the marker lines\<close>

lemma dsl_marker:
  "prefix ''\<newline>Sent from my '' (x # xs) \<Longrightarrow>
   drop_sent_lines (x # xs) = drop_sent_lines (dropWhile (\<lambda>c. c \<noteq> nl) (drop 14 (x # xs)))"
  by (simp only: drop_sent_lines.simps if_True)

lemma dsl_other:
  "\<not> prefix ''\<newline>Sent from my '' (x # xs) \<Longrightarrow>
   drop_sent_lines (x # xs) = x # drop_sent_lines xs"
  by (simp only: drop_sent_lines.simps if_False)

lemma dsl_starts_nl:
  "t = [] \<or> hd t = nl \<Longrightarrow> drop_sent_lines t = [] \<or> hd (drop_sent_lines t) = nl"
proof (induction t rule: drop_sent_lines.induct)
  case 1
  show ?case by simp
next
  case (2 x xs)
  let ?rest = "dropWhile (\<lambda>c. c \<noteq> nl) (drop 14 (x # xs))"
  show ?case
  proof (cases "prefix ''\<newline>Sent from my '' (x # xs)")
    case True
    have "?rest = [] \<or> hd ?rest = nl"
      using dropWhile_head[of "\<lambda>c. c \<noteq> nl" "drop 14 (x # xs)"] by blast
    then have "drop_sent_lines ?rest = [] \<or> hd (drop_sent_lines ?rest) = nl"
      by (rule "2.IH"(1)[OF True])
    then show ?thesis
      by (simp only: dsl_marker[OF True])
  next
    case False
    from "2.prems" have "x = nl" by simp
    moreover have "drop_sent_lines (x # xs) = x # drop_sent_lines xs"
      by (rule dsl_other[OF False])
    ultimately show ?thesis
      by (metis list.sel(1))
  qed
qed

lemma dsl_head:
  assumes "drop_sent_lines t = c # t'" and "c \<noteq> nl"
  shows "\<exists>u. t = c # u \<and> t' = drop_sent_lines u"
proof (cases t)
  case Nil
  with assms show ?thesis by simp
next
  case (Cons x xs)
  show ?thesis
  proof (cases "prefix ''\<newline>Sent from my '' (x # xs)")
    case True
    let ?rest = "dropWhile (\<lambda>c. c \<noteq> nl) (drop 14 (x # xs))"
    have "?rest = [] \<or> hd ?rest = nl"
      using dropWhile_head[of "\<lambda>c. c \<noteq> nl" "drop 14 (x # xs)"] by blast
    then have "drop_sent_lines ?rest = [] \<or> hd (drop_sent_lines ?rest) = nl"
      by (rule dsl_starts_nl)
    then have "drop_sent_lines t = [] \<or> hd (drop_sent_lines t) = nl"
      by (simp only: Cons dsl_marker[OF True])
    with assms show ?thesis by auto
  next
    case False
    from assms(1) have "x # drop_sent_lines xs = c # t'"
      by (simp only: Cons dsl_other[OF False])
    with Cons show ?thesis by simp
  qed
qed

lemma dsl_prefix:
  "nl \<notin> set w \<Longrightarrow> prefix w (drop_sent_lines t) \<Longrightarrow> prefix w t"
proof (induction w arbitrary: t)
  case Nil
  show ?case by simp
next
  case (Cons c w)
  from Cons.prems(2) obtain t' where t': "drop_sent_lines t = c # t'" "prefix w t'"
    by (cases "drop_sent_lines t") auto
  from Cons.prems(1) have c: "c \<noteq> nl" by auto
  from dsl_head[OF t'(1) c] obtain u where u: "t = c # u" "t' = drop_sent_lines u"
    by blast
  from Cons.IH[of u] Cons.prems(1) t'(2) u(2) have "prefix w u" by simp
  with u(1) show ?case by simp
qed

lemma not_occurs_sent_after_dsl:
  "\<not> occurs (prefix ''\<newline>Sent from my '') (drop_sent_lines s)"
proof (induction s rule: drop_sent_lines.induct)
  case 1
  show ?case by simp
next
  case (2 x xs)
  show ?case
  proof (cases "prefix ''\<newline>Sent from my '' (x # xs)")
    case True
    show ?thesis
      unfolding dsl_marker[OF True] by (rule "2.IH"(1)[OF True])
  next
    case False
    have "\<not> prefix ''\<newline>Sent from my '' (x # drop_sent_lines xs)"
    proof
      assume "prefix ''\<newline>Sent from my '' (x # drop_sent_lines xs)"
      then have x: "x = nl" and p: "prefix ''Sent from my '' (drop_sent_lines xs)"
        unfolding prefix_lit_Cons by simp_all
      have "prefix ''Sent from my '' xs"
        by (rule dsl_prefix[OF _ p]) simp
      with x have "prefix ''\<newline>Sent from my '' (x # xs)"
        unfolding prefix_lit_Cons by simp
      with False show False by simp
    qed
    with "2.IH"(2)[OF False] show ?thesis
      by (simp only: dsl_other[OF False] occurs.simps) simp
  qed
qed

lemma dsl_space_run:
  "nl \<in> set (takeWhile is_space (drop_sent_lines r)) \<Longrightarrow> nl \<in> set (takeWhile is_space r)"
proof (induction r rule: drop_sent_lines.induct)
  case 1
  then show ?case by simp
next
  case (2 x xs)
  show ?case
  proof (cases "prefix ''\<newline>Sent from my '' (x # xs)")
    case True
    then have "x = nl" unfolding prefix_lit_Cons by simp
    then show ?thesis by (simp add: nl_is_space)
  next
    case False
    from "2.prems" have "nl \<in> set (takeWhile is_space (x # drop_sent_lines xs))"
      by (simp only: dsl_other[OF False])
    then have "is_space x \<and> (x = nl \<or> nl \<in> set (takeWhile is_space (drop_sent_lines xs)))"
      by (auto split: if_splits)
    with "2.IH"(2)[OF False] show ?thesis by auto
  qed
qed

lemma dsl_delim:
  assumes "delim_here (x # drop_sent_lines xs)"
  shows "delim_here (x # xs)"
proof -
  from assms obtain r' where x: "x = nl" and r': "drop_sent_lines xs = ''--'' @ r'"
      and sp: "nl \<in> set (takeWhile is_space r')"
    unfolding delim_here_Cons by blast
  from r' have "drop_sent_lines xs = CHR ''-'' # (CHR ''-'' # r')" by simp
  from dsl_head[OF this] obtain u where u: "xs = CHR ''-'' # u" "CHR ''-'' # r' = drop_sent_lines u"
    by auto
  from dsl_head[OF u(2)[symmetric]] obtain v where v: "u = CHR ''-'' # v" "r' = drop_sent_lines v"
    by auto
  from sp v(2) have "nl \<in> set (takeWhile is_space v)"
    using dsl_space_run by simp
  with x u(1) v(1) show ?thesis
    unfolding delim_here_Cons by simp
qed

lemma occurs_delim_dsl:
  "occurs delim_here (drop_sent_lines s) \<Longrightarrow> occurs delim_here s"
proof (induction s rule: drop_sent_lines.induct)
  case 1
  then show ?case by simp
next
  case (2 x xs)
  show ?case
  proof (cases "prefix ''\<newline>Sent from my '' (x # xs)")
    case True
    let ?rest = "dropWhile (\<lambda>c. c \<noteq> nl) (drop 14 (x # xs))"
    from "2.prems" have "occurs delim_here (drop_sent_lines ?rest)"
      by (simp only: dsl_marker[OF True])
    then have "occurs delim_here ?rest"
      by (rule "2.IH"(1)[OF True])
    then show ?thesis
      using not_occurs_dropWhile not_occurs_drop by blast
  next
    case False
    from "2.prems" have "delim_here (x # drop_sent_lines xs) \<or> occurs delim_here (drop_sent_lines xs)"
      by (simp only: dsl_other[OF False] occurs.simps)
    then show ?thesis
      using dsl_delim "2.IH"(2)[OF False] by auto
  qed
qed

lemma dsl_fixed:
  "\<not> occurs (prefix ''\<newline>Sent from my '') s \<Longrightarrow> drop_sent_lines s = s"
proof (induction s)
  case Nil
  show ?case by simp
next
  case (Cons x xs)
  from Cons.prems
  have "\<not> (prefix ''\<newline>Sent from my '' (x # xs) \<or> occurs (prefix ''\<newline>Sent from my '') xs)"
    unfolding occurs.simps .
  then have n: "\<not> prefix ''\<newline>Sent from my '' (x # xs)"
    and m: "\<not> occurs (prefix ''\<newline>Sent from my '') xs"
    by blast+
  show ?case
    unfolding dsl_other[OF n] using Cons.IH[OF m] by simp
qed

subsection \<open>Squeezing the blank lines\<close>

lemma sq_run:
  "prefix ''\<newline>\<newline>'' (x # xs) \<Longrightarrow>
   squeeze_newlines (x # xs) = ''\<newline>\<newline>'' @ squeeze_newlines (dropWhile (\<lambda>c. c = nl) xs)"
  by (simp only: squeeze_newlines.simps if_True)

lemma sq_other:
  "\<not> prefix ''\<newline>\<newline>'' (x # xs) \<Longrightarrow> squeeze_newlines (x # xs) = x # squeeze_newlines xs"
  by (simp only: squeeze_newlines.simps if_False)

lemma run_start: "prefix ''\<newline>\<newline>'' (x # xs) \<longleftrightarrow> x = nl \<and> prefix [nl] xs"
  by auto

lemma sq_head:
  assumes "squeeze_newlines t = c # t'" and "c \<noteq> nl"
  shows "\<exists>u. t = c # u \<and> t' = squeeze_newlines u"
proof (cases t)
  case Nil
  with assms show ?thesis by simp
next
  case (Cons x xs)
  show ?thesis
  proof (cases "prefix ''\<newline>\<newline>'' (x # xs)")
    case True
    from assms(1) have "hd (squeeze_newlines (x # xs)) = c"
      by (simp add: Cons)
    then have "c = nl"
      unfolding sq_run[OF True] by simp
    with assms(2) show ?thesis by simp
  next
    case False
    from assms(1) have "x # squeeze_newlines xs = c # t'"
      by (simp only: Cons sq_other[OF False])
    with Cons show ?thesis by simp
  qed
qed

lemma sq_prefix:
  "nl \<notin> set w \<Longrightarrow> prefix w (squeeze_newlines t) \<Longrightarrow> prefix w t"
proof (induction w arbitrary: t)
  case Nil
  show ?case by simp
next
  case (Cons c w)
  from Cons.prems(2) obtain t' where t': "squeeze_newlines t = c # t'" "prefix w t'"
    by (cases "squeeze_newlines t") auto
  from Cons.prems(1) have c: "c \<noteq> nl" by auto
  from sq_head[OF t'(1) c] obtain u where u: "t = c # u" "t' = squeeze_newlines u"
    by blast
  from Cons.IH[of u] Cons.prems(1) t'(2) u(2) have "prefix w u" by simp
  with u(1) show ?case by simp
qed

lemma sq_starts_nl: "prefix [nl] (squeeze_newlines t) \<Longrightarrow> prefix [nl] t"
proof (cases t)
  case Nil
  assume "prefix [nl] (squeeze_newlines t)"
  with Nil show ?thesis by simp
next
  case (Cons x xs)
  assume p: "prefix [nl] (squeeze_newlines t)"
  show ?thesis
  proof (cases "prefix ''\<newline>\<newline>'' (x # xs)")
    case True
    then show ?thesis unfolding Cons run_start by simp
  next
    case False
    from p have "prefix [nl] (x # squeeze_newlines xs)"
      by (simp only: Cons sq_other[OF False])
    then show ?thesis unfolding Cons by simp
  qed
qed

lemma sq_space_run:
  "nl \<in> set (takeWhile is_space (squeeze_newlines r)) \<Longrightarrow> nl \<in> set (takeWhile is_space r)"
proof (induction r rule: squeeze_newlines.induct)
  case 1
  then show ?case by simp
next
  case (2 x xs)
  show ?case
  proof (cases "prefix ''\<newline>\<newline>'' (x # xs)")
    case True
    then have "x = nl" unfolding run_start by simp
    then show ?thesis by (simp add: nl_is_space)
  next
    case False
    from "2.prems" have "nl \<in> set (takeWhile is_space (x # squeeze_newlines xs))"
      by (simp only: sq_other[OF False])
    then have "is_space x \<and> (x = nl \<or> nl \<in> set (takeWhile is_space (squeeze_newlines xs)))"
      by (auto split: if_splits)
    with "2.IH"(2)[OF False] show ?thesis by auto
  qed
qed

lemma sq_delim:
  assumes "delim_here (x # squeeze_newlines xs)"
  shows "delim_here (x # xs)"
proof -
  from assms obtain r' where x: "x = nl" and r': "squeeze_newlines xs = ''--'' @ r'"
      and sp: "nl \<in> set (takeWhile is_space r')"
    unfolding delim_here_Cons by blast
  from r' have "squeeze_newlines xs = CHR ''-'' # (CHR ''-'' # r')" by simp
  from sq_head[OF this] obtain u where u: "xs = CHR ''-'' # u" "CHR ''-'' # r' = squeeze_newlines u"
    by auto
  from sq_head[OF u(2)[symmetric]] obtain v where v: "u = CHR ''-'' # v" "r' = squeeze_newlines v"
    by auto
  from sp v(2) have "nl \<in> set (takeWhile is_space v)"
    using sq_space_run by simp
  with x u(1) v(1) show ?thesis
    unfolding delim_here_Cons by simp
qed

lemma sq_lit:
  assumes "prefix (nl # w) (x # squeeze_newlines xs)" and "nl \<notin> set w"
  shows "prefix (nl # w) (x # xs)"
  using assms sq_prefix[of w xs] unfolding prefix_lit_Cons by blast

lemma run_suffix:
  "prefix [nl] xs \<Longrightarrow> \<exists>a. xs = a @ nl # dropWhile (\<lambda>c. c = nl) xs"
proof (induction xs)
  case Nil
  then show ?case by simp
next
  case (Cons x ys)
  then have x: "x = nl" by simp
  show ?case
  proof (cases "prefix [nl] ys")
    case True
    from Cons.IH[OF True] obtain a where "ys = a @ nl # dropWhile (\<lambda>c. c = nl) ys"
      by blast
    then have "x # ys = (x # a) @ nl # dropWhile (\<lambda>c. c = nl) (x # ys)"
      using x by simp
    then show ?thesis by blast
  next
    case False
    then have "dropWhile (\<lambda>c. c = nl) ys = ys"
      by (cases ys) auto
    then have "x # ys = [] @ nl # dropWhile (\<lambda>c. c = nl) (x # ys)"
      using x by simp
    then show ?thesis by blast
  qed
qed

lemma occurs_squeeze:
  assumes A: "\<And>t. P t \<Longrightarrow> \<exists>u. t = nl # u \<and> \<not> prefix [nl] u"
      and B: "\<And>x t. P (x # squeeze_newlines t) \<Longrightarrow> P (x # t)"
  shows "occurs P (squeeze_newlines s) \<Longrightarrow> occurs P s"
proof (induction s rule: squeeze_newlines.induct)
  case 1
  then show ?case by simp
next
  case (2 x xs)
  show ?case
  proof (cases "prefix ''\<newline>\<newline>'' (x # xs)")
    case True
    let ?d = "dropWhile (\<lambda>c. c = nl) xs"
    from True have x: "x = nl" and xs: "prefix [nl] xs"
      unfolding run_start by simp_all
    from "2.prems" have "occurs P (nl # nl # squeeze_newlines ?d)"
      unfolding sq_run[OF True] by simp
    then consider "P (nl # nl # squeeze_newlines ?d)" | "P (nl # squeeze_newlines ?d)"
      | "occurs P (squeeze_newlines ?d)"
      by auto
    then have "occurs P xs"
    proof cases
      case 1
      from A[OF 1] show ?thesis by simp
    next
      case 2
      then have "P (nl # ?d)" by (rule B)
      then have o: "occurs P (nl # ?d)" by simp
      from run_suffix[OF xs] obtain a where a: "xs = a @ nl # ?d" by blast
      from occurs_append_right[OF o, of a] a show ?thesis by simp
    next
      case 3
      then have "occurs P ?d" by (rule "2.IH"(1)[OF True])
      then show ?thesis using not_occurs_dropWhile by blast
    qed
    then show ?thesis by simp
  next
    case False
    from "2.prems" have "P (x # squeeze_newlines xs) \<or> occurs P (squeeze_newlines xs)"
      unfolding sq_other[OF False] by simp
    then show ?thesis
      using B "2.IH"(2)[OF False] by auto
  qed
qed

lemma occurs_squeeze_lit:
  assumes "w \<noteq> []" and "nl \<notin> set w"
  shows "occurs (prefix (nl # w)) (squeeze_newlines s) \<Longrightarrow> occurs (prefix (nl # w)) s"
proof (rule occurs_squeeze)
  fix t
  assume "prefix (nl # w) t"
  then obtain u where u: "t = nl # u" "prefix w u"
    by (cases t) auto
  from assms obtain c w' where w: "w = c # w'" "c \<noteq> nl"
    by (cases w) auto
  with u(2) have "\<not> prefix [nl] u"
    by (cases u) auto
  with u(1) show "\<exists>u. t = nl # u \<and> \<not> prefix [nl] u" by blast
next
  fix x t
  assume "prefix (nl # w) (x # squeeze_newlines t)"
  then show "prefix (nl # w) (x # t)"
    using assms(2) by (rule sq_lit)
qed

lemma occurs_squeeze_delim:
  "occurs delim_here (squeeze_newlines s) \<Longrightarrow> occurs delim_here s"
proof (rule occurs_squeeze)
  fix t
  assume "delim_here t"
  then show "\<exists>u. t = nl # u \<and> \<not> prefix [nl] u"
    unfolding delim_here_alt by auto
next
  fix x t
  assume "delim_here (x # squeeze_newlines t)"
  then show "delim_here (x # t)" by (rule sq_delim)
qed

lemma nl2_nl1: "prefix ''\<newline>\<newline>'' t \<Longrightarrow> prefix [nl] t"
  by (cases t) simp_all

lemma nl_head_iff: "prefix [nl] t \<longleftrightarrow> t \<noteq> [] \<and> hd t = nl"
  by (cases t) auto

lemma not_occurs_triple_squeeze:
  "\<not> occurs (prefix ''\<newline>\<newline>\<newline>'') (squeeze_newlines s)"
proof (induction s rule: squeeze_newlines.induct)
  case 1
  show ?case by simp
next
  case (2 x xs)
  show ?case
  proof (cases "prefix ''\<newline>\<newline>'' (x # xs)")
    case True
    let ?d = "dropWhile (\<lambda>c. c = nl) xs"
    let ?sd = "squeeze_newlines ?d"
    have "?d = [] \<or> hd ?d \<noteq> nl"
      using dropWhile_head[of "\<lambda>c. c = nl" xs] by blast
    then have "\<not> prefix [nl] ?d"
      unfolding nl_head_iff by blast
    then have n: "\<not> prefix [nl] ?sd"
      using sq_starts_nl by blast
    have e: "squeeze_newlines (x # xs) = nl # nl # ?sd"
      using sq_run[OF True] by simp
    have 1: "\<not> prefix ''\<newline>\<newline>\<newline>'' (nl # nl # ?sd)"
      unfolding prefix_lit_Cons using n by blast
    have 2: "\<not> prefix ''\<newline>\<newline>\<newline>'' (nl # ?sd)"
      unfolding prefix_lit_Cons using n nl2_nl1 by blast
    show ?thesis
      unfolding e occurs.simps using 1 2 "2.IH"(1)[OF True] by blast
  next
    case False
    have "\<not> prefix ''\<newline>\<newline>\<newline>'' (x # squeeze_newlines xs)"
    proof
      assume "prefix ''\<newline>\<newline>\<newline>'' (x # squeeze_newlines xs)"
      then have x: "x = nl" and "prefix ''\<newline>\<newline>'' (squeeze_newlines xs)"
        unfolding prefix_lit_Cons by blast+
      then have "prefix [nl] (squeeze_newlines xs)"
        using nl2_nl1 by blast
      then have "prefix [nl] xs" by (rule sq_starts_nl)
      with x False show False unfolding run_start by blast
    qed
    with "2.IH"(2)[OF False] show ?thesis
      unfolding sq_other[OF False] occurs.simps by blast
  qed
qed

lemma squeeze_fixed:
  "\<not> occurs (prefix ''\<newline>\<newline>\<newline>'') s \<Longrightarrow> squeeze_newlines s = s"
proof (induction s rule: squeeze_newlines.induct)
  case 1
  show ?case by simp
next
  case (2 x xs)
  from "2.prems" have here: "\<not> prefix ''\<newline>\<newline>\<newline>'' (x # xs)"
    and later: "\<not> occurs (prefix ''\<newline>\<newline>\<newline>'') xs"
    unfolding occurs.simps by blast+
  show ?case
  proof (cases "prefix ''\<newline>\<newline>'' (x # xs)")
    case True
    then have x: "x = nl" and p: "prefix [nl] xs"
      unfolding run_start by blast+
    from p obtain ys where xs: "xs = nl # ys"
      unfolding nl_head_iff by (cases xs) auto
    from here have "\<not> prefix ''\<newline>\<newline>'' xs"
      unfolding prefix_lit_Cons using x by blast
    then have "\<not> prefix [nl] ys"
      unfolding xs prefix_lit_Cons by blast
    then have "ys = [] \<or> \<not> (hd ys = nl)"
      unfolding nl_head_iff by blast
    then have "dropWhile (\<lambda>c. c = nl) ys = ys"
      by (rule dropWhile_idle)
    then have d: "dropWhile (\<lambda>c. c = nl) xs = ys"
      unfolding xs by simp
    from later have "\<not> occurs (prefix ''\<newline>\<newline>\<newline>'') ys"
      unfolding xs occurs.simps by blast
    then have "squeeze_newlines ys = ys"
      using "2.IH"(1)[OF True] unfolding d by blast
    then have "squeeze_newlines (x # xs) = nl # nl # ys"
      using sq_run[OF True] unfolding d by simp
    then show ?thesis
      unfolding x xs .
  next
    case False
    show ?thesis
      unfolding sq_other[OF False] using "2.IH"(2)[OF False later] by simp
  qed
qed

subsection \<open>Idempotence\<close>

lemma clean_email_text_core:
  "clean_email_text (VStr x) = Inr (if length (clean_core x) < 50 then [] else clean_core x)"
proof (cases "x = []")
  case True
  then show ?thesis
    by (simp add: clean_email_text_def clean_core_def py_strip_def)
next
  case False
  then show ?thesis
    by (simp add: clean_email_text_def clean_core_def Let_def
        sub_sig_delim sub_sent_from sub_best_regards sub_thanks sub_blank_run)
qed

lemma core_no_delim: "\<not> occurs delim_here (clean_core x)"
proof -
  have "\<not> occurs delim_here (cut_at delim_here x)"
    by (rule not_occurs_cut_at_same[OF extends_delim_here])
  then have "\<not> occurs delim_here (drop_sent_lines (cut_at delim_here x))"
    using occurs_delim_dsl by blast
  then have "\<not> occurs delim_here
      (cut_at (prefix ''\<newline>Thanks,'') (cut_at (prefix ''\<newline>Best regards'')
        (drop_sent_lines (cut_at delim_here x))))"
    by (intro not_occurs_cut_at extends_delim_here)
  then have "\<not> occurs delim_here
      (squeeze_newlines (cut_at (prefix ''\<newline>Thanks,'') (cut_at (prefix ''\<newline>Best regards'')
        (drop_sent_lines (cut_at delim_here x)))))"
    using occurs_squeeze_delim by blast
  then show ?thesis
    unfolding clean_core_def by (rule not_occurs_py_strip[OF extends_delim_here])
qed

lemma core_no_sent: "\<not> occurs (prefix ''\<newline>Sent from my '') (clean_core x)"
proof -
  have "\<not> occurs (prefix ''\<newline>Sent from my '') (drop_sent_lines (cut_at delim_here x))"
    by (rule not_occurs_sent_after_dsl)
  then have "\<not> occurs (prefix ''\<newline>Sent from my '')
      (cut_at (prefix ''\<newline>Thanks,'') (cut_at (prefix ''\<newline>Best regards'')
        (drop_sent_lines (cut_at delim_here x))))"
    by (intro not_occurs_cut_at extends_prefix)
  then have "\<not> occurs (prefix ''\<newline>Sent from my '')
      (squeeze_newlines (cut_at (prefix ''\<newline>Thanks,'') (cut_at (prefix ''\<newline>Best regards'')
        (drop_sent_lines (cut_at delim_here x)))))"
    using occurs_squeeze_lit[of "''Sent from my ''"] by fastforce
  then show ?thesis
    unfolding clean_core_def by (rule not_occurs_py_strip[OF extends_prefix])
qed

lemma core_no_regards: "\<not> occurs (prefix ''\<newline>Best regards'') (clean_core x)"
proof -
  have "\<not> occurs (prefix ''\<newline>Best regards'')
      (cut_at (prefix ''\<newline>Best regards'') (drop_sent_lines (cut_at delim_here x)))"
    by (rule not_occurs_cut_at_same[OF extends_prefix])
  then have "\<not> occurs (prefix ''\<newline>Best regards'')
      (cut_at (prefix ''\<newline>Thanks,'') (cut_at (prefix ''\<newline>Best regards'')
        (drop_sent_lines (cut_at delim_here x))))"
    by (rule not_occurs_cut_at[OF extends_prefix])
  then have "\<not> occurs (prefix ''\<newline>Best regards'')
      (squeeze_newlines (cut_at (prefix ''\<newline>Thanks,'') (cut_at (prefix ''\<newline>Best regards'')
        (drop_sent_lines (cut_at delim_here x)))))"
    using occurs_squeeze_lit[of "''Best regards''"] by fastforce
  then show ?thesis
    unfolding clean_core_def by (rule not_occurs_py_strip[OF extends_prefix])
qed

lemma core_no_thanks: "\<not> occurs (prefix ''\<newline>Thanks,'') (clean_core x)"
proof -
  have "\<not> occurs (prefix ''\<newline>Thanks,'')
      (cut_at (prefix ''\<newline>Thanks,'') (cut_at (prefix ''\<newline>Best regards'')
        (drop_sent_lines (cut_at delim_here x))))"
    by (rule not_occurs_cut_at_same[OF extends_prefix])
  then have "\<not> occurs (prefix ''\<newline>Thanks,'')
      (squeeze_newlines (cut_at (prefix ''\<newline>Thanks,'') (cut_at (prefix ''\<newline>Best regards'')
        (drop_sent_lines (cut_at delim_here x)))))"
    using occurs_squeeze_lit[of "''Thanks,''"] by fastforce
  then show ?thesis
    unfolding clean_core_def by (rule not_occurs_py_strip[OF extends_prefix])
qed

lemma core_no_triple: "\<not> occurs (prefix ''\<newline>\<newline>\<newline>'') (clean_core x)"
  unfolding clean_core_def
  by (rule not_occurs_py_strip[OF extends_prefix not_occurs_triple_squeeze])

lemma core_stripped: "py_strip (clean_core x) = clean_core x"
  unfolding clean_core_def by (rule py_strip_twice)

lemma clean_core_twice: "clean_core (clean_core x) = clean_core x"
proof -
  let ?y = "clean_core x"
  have 1: "cut_at delim_here ?y = ?y"
    unfolding cut_at_id_iff by (rule core_no_delim)
  have 2: "drop_sent_lines ?y = ?y"
    by (rule dsl_fixed[OF core_no_sent])
  have 3: "cut_at (prefix ''\<newline>Best regards'') ?y = ?y"
    unfolding cut_at_id_iff by (rule core_no_regards)
  have 4: "cut_at (prefix ''\<newline>Thanks,'') ?y = ?y"
    unfolding cut_at_id_iff by (rule core_no_thanks)
  have 5: "squeeze_newlines ?y = ?y"
    by (rule squeeze_fixed[OF core_no_triple])
  have "clean_core ?y =
      py_strip (squeeze_newlines (cut_at (prefix ''\<newline>Thanks,'')
        (cut_at (prefix ''\<newline>Best regards'') (drop_sent_lines (cut_at delim_here ?y)))))"
    by (rule clean_core_def)
  also have "\<dots> = py_strip ?y"
    unfolding 1 2 3 4 5 ..
  also have "\<dots> = ?y"
    by (rule core_stripped)
  finally show ?thesis .
qed

text \<open>
  Claim C3. Cleaning is idempotent: cleaning a string returns a string, and cleaning
  that string again returns it unchanged.
\<close>

theorem clean_email_text_idempotent:
  "\<exists>y. clean_email_text (VStr x) = Inr y \<and> clean_email_text (VStr y) = Inr y"
proof (cases "length (clean_core x) < 50")
  case True
  then have "clean_email_text (VStr x) = Inr []"
    by (simp add: clean_email_text_core)
  moreover have "clean_email_text (VStr []) = Inr []"
    by (simp add: clean_email_text_def)
  ultimately show ?thesis by blast
next
  case False
  then have 1: "clean_email_text (VStr x) = Inr (clean_core x)"
    by (simp add: clean_email_text_core)
  have "clean_email_text (VStr (clean_core x)) =
          Inr (if length (clean_core (clean_core x)) < 50 then [] else clean_core (clean_core x))"
    by (rule clean_email_text_core)
  with False have "clean_email_text (VStr (clean_core x)) = Inr (clean_core x)"
    unfolding clean_core_twice by simp
  with 1 show ?thesis by blast
qed

section \<open>Text cleaning: the length of what is kept\<close>

lemma clean_email_text_length:
  "clean_email_text v = Inr y \<Longrightarrow> y = [] \<or> 50 \<le> length y"
  by (auto simp: clean_email_text_def Let_def split: if_splits pyval.splits)

lemma clean_email_text_str_total: "\<exists>y. clean_email_text (VStr x) = Inr y"
  by (simp add: clean_email_text_def Let_def)

lemma examples_loop_outputs:
  "examples_loop acc emails = Inr examples \<Longrightarrow>
   \<forall>ex \<in> set acc. 50 \<le> length (ex_output ex) \<Longrightarrow>
   \<forall>ex \<in> set examples. 50 \<le> length (ex_output ex)"
proof (induction emails arbitrary: acc)
  case Nil
  then show ?case by simp
next
  case (Cons email emails)
  show ?case
  proof (cases "clean_email_text (py_get email ''text_plain'' (VStr []))")
    case (Inl e)
    with Cons.prems show ?thesis by simp
  next
    case (Inr cleaned)
    show ?thesis
    proof (cases "cleaned = []")
      case True
      with Inr Cons.prems Cons.IH[of acc] show ?thesis by simp
    next
      case False
      with Inr clean_email_text_length have len: "50 \<le> length cleaned" by blast
      show ?thesis
      proof (cases "extract_context email")
        case (Inl e)
        with Inr False Cons.prems show ?thesis by simp
      next
        case ctx: (Inr ctxt)
        have "\<forall>ex \<in> set (acc @ [make_example email cleaned ctxt]). 50 \<le> length (ex_output ex)"
          using Cons.prems(2) len by (simp add: make_example_def Let_def)
        moreover have "examples_loop (acc @ [make_example email cleaned ctxt]) emails = Inr examples"
          using Cons.prems(1) Inr False ctx by simp
        ultimately show ?thesis
          using Cons.IH by blast
      qed
    qed
  qed
qed

text \<open>
  Claim C2. Cleaning a string returns the empty string or a string of at least 50
  characters, and every example that \<^verbatim>\<open>create_training_examples\<close> returns has an output
  of at least 50 characters.
\<close>

theorem clean_output_at_least_50:
  "(\<exists>y. clean_email_text (VStr x) = Inr y \<and> (y = [] \<or> 50 \<le> length y))
   \<and> (create_training_examples emails = Inr examples \<longrightarrow>
        (\<forall>ex \<in> set examples. 50 \<le> length (ex_output ex)))"
  using clean_email_text_str_total[of x] clean_email_text_length
    examples_loop_outputs[of "[]" emails examples]
  by (auto simp: create_training_examples_def)

text \<open>
  A batch of two emails: the first body is kept, the second (Scenario 2 of the
  specification) is cut at \<^verbatim>\<open>Best regards\<close> and dropped as too short.
\<close>

theorem clean_output_at_least_50_witness:
  "create_training_examples
     [[''subject'' \<mapsto> VStr ''Status'',
       ''text_plain'' \<mapsto> VStr ''The build is green again and the release notes are ready for your review.''],
      [''subject'' \<mapsto> VStr ''Status'',
       ''text_plain'' \<mapsto> VStr ''Hi,\<newline>\<newline>Best regards,\<newline>John'']]
     = Inr [make_example [''subject'' \<mapsto> VStr ''Status'']
              ''The build is green again and the release notes are ready for your review.'' None]
   \<and> 50 \<le> length (ex_output (make_example [''subject'' \<mapsto> VStr ''Status'']
              ''The build is green again and the release notes are ready for your review.'' None))"
proof -
  have run: "create_training_examples
     [[''subject'' \<mapsto> VStr ''Status'',
       ''text_plain'' \<mapsto> VStr ''The build is green again and the release notes are ready for your review.''],
      [''subject'' \<mapsto> VStr ''Status'',
       ''text_plain'' \<mapsto> VStr ''Hi,\<newline>\<newline>Best regards,\<newline>John'']]
     = Inr [make_example [''subject'' \<mapsto> VStr ''Status'']
              ''The build is green again and the release notes are ready for your review.'' None]"
    by code_simp
  show ?thesis
    using run clean_output_at_least_50
      [of "[]" "[[''subject'' \<mapsto> VStr ''Status'',
       ''text_plain'' \<mapsto> VStr ''The build is green again and the release notes are ready for your review.''],
      [''subject'' \<mapsto> VStr ''Status'',
       ''text_plain'' \<mapsto> VStr ''Hi,\<newline>\<newline>Best regards,\<newline>John'']]"
          "[make_example [''subject'' \<mapsto> VStr ''Status'']
              ''The build is green again and the release notes are ready for your review.'' None]"]
    by simp
qed

section \<open>Example assembly\<close>

lemma extract_context_str:
  assumes "email ''subject'' = Some (VStr s) \<or> (email ''subject'' = None \<and> s = [])"
  shows "extract_context email =
           Inr (if prefix ''Re: '' s \<or> prefix ''RE: '' s
                then Some (''Previous email subject: '' @ drop 4 s) else None)"
  using assms by (auto simp: extract_context_def py_get_def)

lemma examples_loop_append:
  "examples_loop acc emails =
     (case examples_loop [] emails of Inl e \<Rightarrow> Inl e | Inr exs \<Rightarrow> Inr (acc @ exs))"
proof (induction emails arbitrary: acc)
  case Nil
  show ?case by simp
next
  case (Cons email emails)
  have a: "examples_loop (acc @ [x]) emails =
             (case examples_loop [] emails of Inl e \<Rightarrow> Inl e | Inr exs \<Rightarrow> Inr ((acc @ [x]) @ exs))" for x
    by (rule Cons.IH)
  have b: "examples_loop [x] emails =
             (case examples_loop [] emails of Inl e \<Rightarrow> Inl e | Inr exs \<Rightarrow> Inr ([x] @ exs))" for x
    by (rule Cons.IH)
  have c: "examples_loop acc emails =
             (case examples_loop [] emails of Inl e \<Rightarrow> Inl e | Inr exs \<Rightarrow> Inr (acc @ exs))"
    by (rule Cons.IH)
  show ?case
    by (simp add: a b c split: sum.splits)
qed

text \<open>
  Claim C5, as amended. For every email whose subject is a string (or is absent, which
  reads as the empty string), the context is \<^verbatim>\<open>Previous email subject: \<close> followed by the
  subject without its first four characters when the subject begins with \<^verbatim>\<open>Re: \<close> or
  \<^verbatim>\<open>RE: \<close> (the marker, the colon and one space), and no context otherwise. When the
  cleaned body is not empty, the example built from the email has the reply instruction
  with that context in the first case and the plain instruction in the second.
\<close>

theorem extract_context_reply_prefix:
  assumes "email ''subject'' = Some (VStr s) \<or> (email ''subject'' = None \<and> s = [])"
  shows "extract_context email =
           Inr (if prefix ''Re: '' s \<or> prefix ''RE: '' s
                then Some (''Previous email subject: '' @ drop 4 s) else None)
         \<and> (clean_email_text (py_get email ''text_plain'' (VStr [])) = Inr text \<and> text \<noteq> [] \<longrightarrow>
              (\<exists>ex. create_training_examples [email] = Inr [ex]
                 \<and> ex_output ex = text
                 \<and> ex_instruction ex =
                     (if prefix ''Re: '' s \<or> prefix ''RE: '' s
                      then ''Write a professional email reply about: '' @ s
                             @ ''\<newline>\<newline>Context: '' @ ''Previous email subject: '' @ drop 4 s
                      else ''Write a professional email about: '' @ s)))"
proof -
  have subj: "py_str (py_get email ''subject'' (VStr [])) = s"
    using assms by (auto simp: py_get_def)
  show ?thesis
    using extract_context_str[of email s] assms subj
    by (simp add: create_training_examples_def make_example_def Let_def)
qed

theorem extract_context_reply_prefix_witness:
  "([''subject'' \<mapsto> VStr ''Re: Project Update'',
     ''text_plain'' \<mapsto> VStr ''Hello team, the project update is attached. Please review it before our meeting.'']
       ''subject'' = Some (VStr ''Re: Project Update'')
    \<or> ([''subject'' \<mapsto> VStr ''Re: Project Update'',
     ''text_plain'' \<mapsto> VStr ''Hello team, the project update is attached. Please review it before our meeting.'']
       ''subject'' = None \<and> ''Re: Project Update'' = []))
   \<and> extract_context
        [''subject'' \<mapsto> VStr ''Re: Project Update'',
         ''text_plain'' \<mapsto> VStr ''Hello team, the project update is attached. Please review it before our meeting.'']
       = Inr (Some ''Previous email subject: Project Update'')
   \<and> (\<exists>ex. create_training_examples
              [[''subject'' \<mapsto> VStr ''Re: Project Update'',
                ''text_plain'' \<mapsto> VStr ''Hello team, the project update is attached. Please review it before our meeting.'']]
            = Inr [ex]
          \<and> ex_instruction ex =
              ''Write a professional email reply about: Re: Project Update''
                @ ''\<newline>\<newline>'' @ ''Context: Previous email subject: Project Update'')"
proof -
  have body: "clean_email_text (VStr ''Hello team, the project update is attached. Please review it before our meeting.'')
     = Inr ''Hello team, the project update is attached. Please review it before our meeting.''"
    by code_simp
  show ?thesis
    using body extract_context_reply_prefix
      [of "[''subject'' \<mapsto> VStr ''Re: Project Update'',
            ''text_plain'' \<mapsto> VStr ''Hello team, the project update is attached. Please review it before our meeting.'']"
          "''Re: Project Update''"
          "''Hello team, the project update is attached. Please review it before our meeting.''"]
    by (auto simp: py_get_def)
qed

text \<open>
  The subject \<^verbatim>\<open>RE:Invoice\<close> begins with the marker \<^verbatim>\<open>RE:\<close>, and no context is returned.
\<close>

theorem extract_context_no_space_counterexample:
  "prefix ''RE:'' ''RE:Invoice''
   \<and> extract_context [''subject'' \<mapsto> VStr ''RE:Invoice''] = Inr None
   \<and> extract_context [''subject'' \<mapsto> VStr ''RE:Invoice'']
       \<noteq> Inr (Some (''Previous email subject: '' @ drop 4 ''RE:Invoice''))"
  by (simp add: extract_context_def py_get_def)

text \<open>
  When the batch returns, it has at most one example per record, and a record with an
  empty or missing body contributes nothing.
\<close>

lemma examples_loop_length:
  "examples_loop acc emails = Inr examples \<Longrightarrow> length examples \<le> length acc + length emails"
proof (induction emails arbitrary: acc)
  case Nil
  then show ?case by simp
next
  case (Cons email emails)
  from Cons.prems show ?case
    by (auto split: sum.splits if_splits dest!: Cons.IH)
qed

lemma create_training_examples_length:
  "create_training_examples emails = Inr examples \<Longrightarrow> length examples \<le> length emails"
  using examples_loop_length[of "[]" emails examples] by (simp add: create_training_examples_def)

lemma create_training_examples_skips_empty_body:
  assumes "email ''text_plain'' = None \<or> email ''text_plain'' = Some VNone
           \<or> email ''text_plain'' = Some (VStr [])"
  shows "create_training_examples (email # emails) = create_training_examples emails"
  using assms by (auto simp: create_training_examples_def py_get_def clean_email_text_def)

text \<open>
  Claim C4. A batch never raises, whatever the field values of its records. The code
  does raise on a fetched row whose subject is NULL and whose body survives cleaning:
  \<^verbatim>\<open>email.get('subject', '')\<close> returns \<^verbatim>\<open>None\<close> (the key is present), and
  \<^verbatim>\<open>subject.startswith\<close> fails with \<^verbatim>\<open>AttributeError\<close>, which ends the whole batch. The
  body path tolerates \<^verbatim>\<open>None\<close> (\<^verbatim>\<open>if not text\<close>), the subject path does not.
\<close>

theorem create_training_examples_null_subject:
  "create_training_examples
     [email_of_row (VInt 7, VNone,
        VStr ''Hello team, the project update is attached. Please review it before our meeting.'',
        VNone, VNone, VTime ''2024-05-01 10:00:00'', VStr ''me@example.com'', VStr ''you@example.com'')]
   = Inl AttributeError"
  by code_simp

section \<open>Format conversion is a map\<close>

lemma alpaca_loop_map:
  "alpaca_loop acc examples =
     acc @ map (\<lambda>ex. \<lparr> a_instruction = ex_instruction ex, a_input = ex_input ex,
                        a_output = ex_output ex \<rparr>) examples"
  by (induction examples arbitrary: acc) simp_all

lemma chat_loop_map:
  "chat_loop acc examples =
     acc @ map (\<lambda>ex. \<lparr> messages = [\<lparr> role = ''system'', content = system_prompt \<rparr>,
                                     \<lparr> role = ''user'', content = ex_instruction ex \<rparr>,
                                     \<lparr> role = ''assistant'', content = ex_output ex \<rparr>] \<rparr>) examples"
  by (induction examples arbitrary: acc) simp_all

text \<open>
  Claim C9. Both formatters return one record per example, in the order of the examples:
  the i-th Alpaca record holds the instruction, input and output of the i-th example and
  nothing else, and the i-th Chat record is the three messages system, user, assistant
  with the fixed system prompt, the example's instruction and the example's output.
\<close>

theorem formats_length_and_nth:
  "length (create_alpaca_format examples) = length examples
   \<and> length (create_chat_format examples) = length examples
   \<and> (\<forall>i < length examples.
        create_alpaca_format examples ! i =
          \<lparr> a_instruction = ex_instruction (examples ! i), a_input = ex_input (examples ! i),
            a_output = ex_output (examples ! i) \<rparr>
        \<and> create_chat_format examples ! i =
          \<lparr> messages =
              [\<lparr> role = ''system'',
                 content = ''You are a helpful email assistant. Write emails in a professional, clear, and concise manner matching the user's writing style.'' \<rparr>,
               \<lparr> role = ''user'', content = ex_instruction (examples ! i) \<rparr>,
               \<lparr> role = ''assistant'', content = ex_output (examples ! i) \<rparr>] \<rparr>)"
  by (simp add: create_alpaca_format_def create_chat_format_def alpaca_loop_map chat_loop_map
      system_prompt_def)

theorem formats_length_and_nth_witness:
  "(1::nat) < length [make_example Map.empty ''first body'' None,
                      make_example [''subject'' \<mapsto> VStr ''Status''] ''second body'' None]
   \<and> create_alpaca_format
         [make_example Map.empty ''first body'' None,
          make_example [''subject'' \<mapsto> VStr ''Status''] ''second body'' None] ! 1 =
       \<lparr> a_instruction = ''Write a professional email about: Status'', a_input = [],
         a_output = ''second body'' \<rparr>
   \<and> create_chat_format
         [make_example Map.empty ''first body'' None,
          make_example [''subject'' \<mapsto> VStr ''Status''] ''second body'' None] ! 1 =
       \<lparr> messages =
           [\<lparr> role = ''system'',
              content = ''You are a helpful email assistant. Write emails in a professional, clear, and concise manner matching the user's writing style.'' \<rparr>,
            \<lparr> role = ''user'', content = ''Write a professional email about: Status'' \<rparr>,
            \<lparr> role = ''assistant'', content = ''second body'' \<rparr>] \<rparr>"
  using formats_length_and_nth
    [of "[make_example Map.empty ''first body'' None,
          make_example [''subject'' \<mapsto> VStr ''Status''] ''second body'' None]"]
  by (simp add: make_example_def py_get_def)

section \<open>Splitting\<close>

lemma split_idx_bounds:
  fixes fl :: "rat \<Rightarrow> rat"
  assumes "mono fl" and "fl 0 = 0" and "fl (of_nat n) = of_nat n" and "0 \<le> r" and "r \<le> 1"
  shows "0 \<le> py_int (fl (of_nat n * r))" and "py_int (fl (of_nat n * r)) \<le> int n"
    and "py_int (fl (of_nat n * r)) = \<lfloor>fl (of_nat n * r)\<rfloor>"
proof -
  have "0 \<le> of_nat n * r"
    using assms(4) by simp
  then have "fl 0 \<le> fl (of_nat n * r)"
    by (rule monoD[OF assms(1)])
  then have nonneg: "0 \<le> fl (of_nat n * r)"
    by (simp add: assms(2))
  then show eq: "py_int (fl (of_nat n * r)) = \<lfloor>fl (of_nat n * r)\<rfloor>"
    by (simp add: py_int_def not_less)
  from nonneg show "0 \<le> py_int (fl (of_nat n * r))"
    by (simp add: eq)
  have "of_nat n * r \<le> of_nat n * 1"
    using assms(5) by (intro mult_left_mono) simp_all
  then have "of_nat n * r \<le> of_nat n"
    by simp
  then have "fl (of_nat n * r) \<le> fl (of_nat n)"
    by (rule monoD[OF assms(1)])
  then have "\<lfloor>fl (of_nat n * r)\<rfloor> \<le> \<lfloor>(of_nat n :: rat)\<rfloor>"
    unfolding assms(3) by (rule floor_mono)
  then show "py_int (fl (of_nat n * r)) \<le> int n"
    by (simp add: eq)
qed

lemma shuffle_mset:
  assumes "mset order = mset [0..<length examples]"
  shows "mset (shuffle order examples) = mset examples"
proof -
  have "mset (map (\<lambda>i. examples ! i) order) = image_mset (\<lambda>i. examples ! i) (mset order)"
    by simp
  also have "\<dots> = mset (map (\<lambda>i. examples ! i) [0..<length examples])"
    by (simp add: assms)
  also have "\<dots> = mset examples"
    by (simp add: map_nth)
  finally show ?thesis
    by (simp add: shuffle_def)
qed

text \<open>
  Claim C6. For every example list, every shuffle order and every train ratio \<open>r\<close>
  (a ratio: between 0 and 1), the training part has \<open>\<lfloor>len * r\<rfloor>\<close> elements, the two parts
  together have as many elements as the list, no element of the shuffled list is in
  both parts (the training part is made of the first \<open>\<lfloor>len * r\<rfloor>\<close> positions of the
  shuffle order and the validation part of the remaining ones), and the two parts put
  together are a permutation of the list. The product is the float product of the
  code, whose rounding is monotone and leaves 0 and the length unchanged.
\<close>

theorem split_dataset_partition:
  assumes "mset order = mset [0..<length examples]" and "0 \<le> r" and "r \<le> 1"
      and "mono fl" and "fl 0 = 0" and "fl (of_nat (length examples)) = of_nat (length examples)"
  shows "(let (train, val) = split_dataset fl order examples r;
              k = nat \<lfloor>fl (of_nat (length examples) * r)\<rfloor>
          in int (length train) = \<lfloor>fl (of_nat (length examples) * r)\<rfloor>
             \<and> length train + length val = length examples
             \<and> train = map (\<lambda>i. examples ! i) (take k order)
             \<and> val = map (\<lambda>i. examples ! i) (drop k order)
             \<and> set (take k order) \<inter> set (drop k order) = {}
             \<and> mset (train @ val) = mset examples)"
proof -
  define n where "n = length examples"
  define q where "q = \<lfloor>fl (of_nat n * r)\<rfloor>"
  define k where "k = nat q"
  have len: "length order = n"
    using mset_eq_length[OF assms(1)] by (simp add: n_def)
  have fln: "fl (of_nat n) = of_nat n"
    using assms(6) by (simp add: n_def)
  have idx: "py_int (fl (of_nat n * r)) = q" and q0: "0 \<le> q" and qn: "q \<le> int n"
    using split_idx_bounds[OF assms(4,5) fln assms(2,3)] by (simp_all add: q_def)
  have kn: "k \<le> n" and qk: "q = int k"
    using q0 qn by (simp_all add: k_def)
  have to: "slice_to xs q = take k xs" and frm: "slice_from xs q = drop k xs" for xs :: "'a list"
    using q0 by (simp_all add: slice_to_def slice_from_def k_def)
  have sd: "split_dataset fl order examples r =
              (map (\<lambda>i. examples ! i) (take k order), map (\<lambda>i. examples ! i) (drop k order))"
    unfolding split_dataset_def Let_def shuffle_def
    by (simp only: length_map len idx to frm take_map drop_map)
  have "distinct order"
    using mset_eq_imp_distinct_iff[OF assms(1)] by simp
  then have disj: "set (take k order) \<inter> set (drop k order) = {}"
    by (metis append_take_drop_id distinct_append)
  have "map (\<lambda>i. examples ! i) (take k order) @ map (\<lambda>i. examples ! i) (drop k order)
          = shuffle order examples"
    unfolding shuffle_def by (metis append_take_drop_id map_append)
  then have perm: "mset (map (\<lambda>i. examples ! i) (take k order) @ map (\<lambda>i. examples ! i) (drop k order))
          = mset examples"
    using shuffle_mset[OF assms(1)] by simp
  have l1: "int (length (map (\<lambda>i. examples ! i) (take k order))) = q"
    using kn len qk by simp
  have l2: "length (map (\<lambda>i. examples ! i) (take k order)) + length (map (\<lambda>i. examples ! i) (drop k order)) = n"
    using kn len by simp
  show ?thesis
    unfolding sd Let_def prod.case
    using l1 l2 disj perm
    unfolding n_def[symmetric] q_def[symmetric] k_def[symmetric]
    by blast
qed

text \<open>Ten examples at the default ratio: nine go to training, one to validation.\<close>

theorem split_dataset_partition_witness:
  "mset [9, 8, 7, 6, 5, 4, 3, 2, 1, 0] = mset [0..<length ''abcdefghij'']
   \<and> (0::rat) \<le> default_train_ratio \<and> default_train_ratio \<le> 1
   \<and> mono (\<lambda>x::rat. x)
   \<and> split_dataset (\<lambda>x. x) [9, 8, 7, 6, 5, 4, 3, 2, 1, 0] ''abcdefghij'' default_train_ratio
        = (''jihgfedcb'', ''a'')
   \<and> \<lfloor>of_nat (length ''abcdefghij'') * default_train_ratio\<rfloor> = 9"
proof -
  have h: "mset [9, 8, 7, 6, 5, 4, 3, 2, 1, 0] = mset [0..<length ''abcdefghij'']"
    by code_simp
  have r0: "(0::rat) \<le> default_train_ratio" and r1: "default_train_ratio \<le> 1"
    by (simp_all add: default_train_ratio_def)
  have m: "mono (\<lambda>x::rat. x)"
    by (simp add: mono_def)
  have fl: "\<lfloor>of_nat (length ''abcdefghij'') * default_train_ratio\<rfloor> = 9"
    by (simp add: default_train_ratio_def floor_eq_iff)
  have k: "nat \<lfloor>of_nat (length ''abcdefghij'') * default_train_ratio\<rfloor> = 9"
    unfolding fl by simp
  note t = split_dataset_partition
      [of "[9, 8, 7, 6, 5, 4, 3, 2, 1, 0]" "''abcdefghij''" default_train_ratio "\<lambda>x. x",
       OF h r0 r1 m]
  have "split_dataset (\<lambda>x. x) [9, 8, 7, 6, 5, 4, 3, 2, 1, 0] ''abcdefghij'' default_train_ratio
        = (''jihgfedcb'', ''a'')"
    using t unfolding k by (simp add: Let_def split: prod.splits)
  with h r0 r1 m fl show ?thesis
    by blast
qed

section \<open>Statistics\<close>

lemma py_int_quotient:
  assumes "0 \<le> a" and "0 < n"
  shows "py_int (of_int a / of_nat n) = a div int n"
proof -
  have "(0::rat) \<le> of_int a / of_nat n"
    using assms by simp
  moreover have "\<lfloor>(of_int a / of_int (int n) :: rat)\<rfloor> = a div int n"
    by (rule floor_divide_of_int_eq)
  ultimately show ?thesis
    by (simp add: py_int_def not_less)
qed

lemma count_ones: "sum_list (map (\<lambda>s. 1) (filter P xs)) = int (length (filter P xs))"
  by (induction xs) simp_all

lemma reply_not_forward:
  "starts_with_any [''Re:'', ''RE:''] s \<Longrightarrow> \<not> starts_with_any [''Fwd:'', ''FW:''] s"
  by (auto simp: starts_with_any_def prefix_def)

lemma three_way_count:
  "(\<And>x. P x \<Longrightarrow> \<not> Q x) \<Longrightarrow>
   int (length xs) - int (length (filter P xs)) - int (length (filter Q xs))
     = int (length (filter (\<lambda>x. \<not> P x \<and> \<not> Q x) xs))"
  by (induction xs) auto

lemma py_min_Min: "xs \<noteq> [] \<Longrightarrow> py_min xs = Min (set xs)"
proof (cases xs)
  case (Cons a list)
  then show ?thesis using Min.set_eq_fold[of a list] by simp
qed simp

lemma py_max_Max: "xs \<noteq> [] \<Longrightarrow> py_max xs = Max (set xs)"
proof (cases xs)
  case (Cons a list)
  then show ?thesis using Max.set_eq_fold[of a list] by simp
qed simp

lemma sum_lengths_nonneg: "0 \<le> sum_list (map (\<lambda>ex. int (length (ex_output ex))) examples)"
  by (induction examples) simp_all

text \<open>
  Claim C8. On the empty list the statistics are the empty structure, and nothing is
  divided. On a non-empty list they are the total count, the average (rounded down), the
  minimum and the maximum of the output lengths, the number of subjects beginning with
  \<^verbatim>\<open>Re:\<close> or \<^verbatim>\<open>RE:\<close>, the number beginning with \<^verbatim>\<open>Fwd:\<close> or \<^verbatim>\<open>FW:\<close>, and the number
  of all other subjects as new; the three counts add up to the total. The function
  returns a value on every list of examples.
\<close>

theorem create_statistics_contents:
  "create_statistics [] = []
   \<and> (examples \<noteq> [] \<longrightarrow>
        (let lens = map (\<lambda>ex. int (length (ex_output ex))) examples;
             subjects = map (\<lambda>ex. m_subject (ex_metadata ex)) examples;
             replies = int (length (filter (\<lambda>s. prefix ''Re:'' s \<or> prefix ''RE:'' s) subjects));
             forwards = int (length (filter (\<lambda>s. prefix ''Fwd:'' s \<or> prefix ''FW:'' s) subjects));
             news = int (length (filter (\<lambda>s. \<not> (prefix ''Re:'' s \<or> prefix ''RE:'' s)
                                               \<and> \<not> (prefix ''Fwd:'' s \<or> prefix ''FW:'' s)) subjects))
         in create_statistics examples =
              [(''total_examples'', int (length examples)),
               (''avg_email_length'', sum_list lens div int (length examples)),
               (''min_email_length'', Min (set lens)),
               (''max_email_length'', Max (set lens)),
               (''reply_emails'', replies),
               (''forward_emails'', forwards),
               (''new_emails'', news)]
            \<and> replies + forwards + news = int (length examples)))"
proof -
  have empty: "create_statistics [] = []"
    by (simp add: create_statistics_def)
  have any: "starts_with_any [a, b] = (\<lambda>s. prefix a s \<or> prefix b s)" for a b
    by (auto simp: starts_with_any_def)
  have excl: "\<And>s. prefix ''Re:'' s \<or> prefix ''RE:'' s \<Longrightarrow> \<not> (prefix ''Fwd:'' s \<or> prefix ''FW:'' s)"
    using reply_not_forward by (simp add: any)
  note cnt = three_way_count[of "\<lambda>s. prefix ''Re:'' s \<or> prefix ''RE:'' s"
      "\<lambda>s. prefix ''Fwd:'' s \<or> prefix ''FW:'' s"
      "map (\<lambda>ex. m_subject (ex_metadata ex)) examples", OF excl]
  have nonempty: "examples \<noteq> [] \<Longrightarrow> ?thesis"
    using cnt
    by (simp add: empty create_statistics_def Let_def any count_ones py_min_Min py_max_Max
        py_int_quotient sum_lengths_nonneg)
  show ?thesis
    using empty nonempty by (cases "examples = []") simp_all
qed

theorem create_statistics_contents_witness:
  "[\<lparr> ex_instruction = ''i1'', ex_input = [], ex_output = ''abcd'',
      ex_metadata = \<lparr> m_email_id = VInt 1, m_subject = ''Re:x'', m_sent_at = [], m_from = VNone, m_to = VNone \<rparr> \<rparr>,
    \<lparr> ex_instruction = ''i2'', ex_input = [], ex_output = ''ab'',
      ex_metadata = \<lparr> m_email_id = VInt 2, m_subject = ''FW: y'', m_sent_at = [], m_from = VNone, m_to = VNone \<rparr> \<rparr>,
    \<lparr> ex_instruction = ''i3'', ex_input = [], ex_output = ''abcdefg'',
      ex_metadata = \<lparr> m_email_id = VInt 3, m_subject = ''Hello'', m_sent_at = [], m_from = VNone, m_to = VNone \<rparr> \<rparr>] \<noteq> []
   \<and> create_statistics
        [\<lparr> ex_instruction = ''i1'', ex_input = [], ex_output = ''abcd'',
           ex_metadata = \<lparr> m_email_id = VInt 1, m_subject = ''Re:x'', m_sent_at = [], m_from = VNone, m_to = VNone \<rparr> \<rparr>,
         \<lparr> ex_instruction = ''i2'', ex_input = [], ex_output = ''ab'',
           ex_metadata = \<lparr> m_email_id = VInt 2, m_subject = ''FW: y'', m_sent_at = [], m_from = VNone, m_to = VNone \<rparr> \<rparr>,
         \<lparr> ex_instruction = ''i3'', ex_input = [], ex_output = ''abcdefg'',
           ex_metadata = \<lparr> m_email_id = VInt 3, m_subject = ''Hello'', m_sent_at = [], m_from = VNone, m_to = VNone \<rparr> \<rparr>]
      = [(''total_examples'', 3), (''avg_email_length'', 4), (''min_email_length'', 2),
         (''max_email_length'', 7), (''reply_emails'', 1), (''forward_emails'', 1),
         (''new_emails'', 1)]"
  using create_statistics_contents
    [of "[\<lparr> ex_instruction = ''i1'', ex_input = [], ex_output = ''abcd'',
      ex_metadata = \<lparr> m_email_id = VInt 1, m_subject = ''Re:x'', m_sent_at = [], m_from = VNone, m_to = VNone \<rparr> \<rparr>,
    \<lparr> ex_instruction = ''i2'', ex_input = [], ex_output = ''ab'',
      ex_metadata = \<lparr> m_email_id = VInt 2, m_subject = ''FW: y'', m_sent_at = [], m_from = VNone, m_to = VNone \<rparr> \<rparr>,
    \<lparr> ex_instruction = ''i3'', ex_input = [], ex_output = ''abcdefg'',
      ex_metadata = \<lparr> m_email_id = VInt 3, m_subject = ''Hello'', m_sent_at = [], m_from = VNone, m_to = VNone \<rparr> \<rparr>]"]
  by (simp add: Let_def)

section \<open>Replies in the statistics and in context extraction\<close>

lemma reply_count_Cons:
  "map_of (create_statistics (ex # examples)) ''reply_emails'' =
     Some ((if starts_with_any [''Re:'', ''RE:''] (m_subject (ex_metadata ex)) then 1 else 0)
           + int (length (filter (starts_with_any [''Re:'', ''RE:''])
                    (map (\<lambda>ex. m_subject (ex_metadata ex)) examples))))"
  by (simp add: create_statistics_def Let_def count_ones)

text \<open>
  Claim C10. A subject that begins with \<^verbatim>\<open>Re:\<close> or \<^verbatim>\<open>RE:\<close> without the following space
  gets no context, so its example carries the plain instruction, while the statistics
  count that example among the replies. Every subject that context extraction takes
  for a reply is also one for the statistics.
\<close>

theorem reply_predicate_weaker_in_statistics:
  assumes "prefix ''Re:'' s \<or> prefix ''RE:'' s"
      and "\<not> prefix ''Re: '' s" and "\<not> prefix ''RE: '' s"
      and "email ''subject'' = Some (VStr s)"
  shows "extract_context email = Inr None
         \<and> (clean_email_text (py_get email ''text_plain'' (VStr [])) = Inr body \<and> body \<noteq> [] \<longrightarrow>
              (\<exists>ex. create_training_examples [email] = Inr [ex]
                 \<and> ex_instruction ex = ''Write a professional email about: '' @ s
                 \<and> (\<forall>examples.
                       map_of (create_statistics (ex # examples)) ''reply_emails'' =
                         Some (1 + int (length (filter (\<lambda>t. prefix ''Re:'' t \<or> prefix ''RE:'' t)
                                   (map (\<lambda>ex. m_subject (ex_metadata ex)) examples)))))))
         \<and> (\<forall>t. prefix ''Re: '' t \<or> prefix ''RE: '' t \<longrightarrow> prefix ''Re:'' t \<or> prefix ''RE:'' t)"
proof -
  have any: "starts_with_any [''Re:'', ''RE:''] = (\<lambda>t. prefix ''Re:'' t \<or> prefix ''RE:'' t)"
    by (auto simp: starts_with_any_def)
  have ctx: "extract_context email = Inr None"
    using assms by (simp add: extract_context_def py_get_def)
  have subj: "py_str (py_get email ''subject'' (VStr [])) = s"
    using assms by (simp add: py_get_def)
  have weaker: "\<forall>t. prefix ''Re: '' t \<or> prefix ''RE: '' t \<longrightarrow> prefix ''Re:'' t \<or> prefix ''RE:'' t"
    by (auto simp: prefix_def)
  have build: "clean_email_text (py_get email ''text_plain'' (VStr [])) = Inr body \<Longrightarrow> body \<noteq> [] \<Longrightarrow>
      create_training_examples [email] = Inr [make_example email body None]"
    using ctx by (simp add: create_training_examples_def)
  have instr: "ex_instruction (make_example email body None) = ''Write a professional email about: '' @ s"
    using subj by (simp add: make_example_def Let_def)
  have msub: "m_subject (ex_metadata (make_example email body None)) = s"
    using subj by (simp add: make_example_def Let_def)
  have cnt: "\<forall>examples. map_of (create_statistics (make_example email body None # examples)) ''reply_emails'' =
      Some (1 + int (length (filter (\<lambda>t. prefix ''Re:'' t \<or> prefix ''RE:'' t)
                                   (map (\<lambda>ex. m_subject (ex_metadata ex)) examples))))"
    using assms(1) by (simp add: reply_count_Cons msub any)
  show ?thesis
    using ctx weaker build instr cnt by blast
qed

theorem reply_predicate_weaker_in_statistics_witness:
  "(prefix ''Re:'' ''Re:Hello'' \<or> prefix ''RE:'' ''Re:Hello'')
   \<and> \<not> prefix ''Re: '' ''Re:Hello'' \<and> \<not> prefix ''RE: '' ''Re:Hello''
   \<and> extract_context
         [''subject'' \<mapsto> VStr ''Re:Hello'',
          ''text_plain'' \<mapsto> VStr ''Hello again, I have pushed the fix and the nightly build passes now. Let me know.''] = Inr None
   \<and> (\<exists>ex. create_training_examples
          [[''subject'' \<mapsto> VStr ''Re:Hello'',
          ''text_plain'' \<mapsto> VStr ''Hello again, I have pushed the fix and the nightly build passes now. Let me know.'']] = Inr [ex]
        \<and> ex_instruction ex = ''Write a professional email about: Re:Hello''
        \<and> map_of (create_statistics [ex]) ''reply_emails'' = Some 1)"
proof -
  have body: "clean_email_text (VStr ''Hello again, I have pushed the fix and the nightly build passes now. Let me know.'') = Inr ''Hello again, I have pushed the fix and the nightly build passes now. Let me know.''"
    by code_simp
  have h1: "prefix ''Re:'' ''Re:Hello'' \<or> prefix ''RE:'' ''Re:Hello''" by simp
  have h2: "\<not> prefix ''Re: '' ''Re:Hello''" by simp
  have h3: "\<not> prefix ''RE: '' ''Re:Hello''" by simp
  have h4: "[''subject'' \<mapsto> VStr ''Re:Hello'',
          ''text_plain'' \<mapsto> VStr ''Hello again, I have pushed the fix and the nightly build passes now. Let me know.''] ''subject'' = Some (VStr ''Re:Hello'')" by simp
  note t = reply_predicate_weaker_in_statistics
      [of "''Re:Hello''" "[''subject'' \<mapsto> VStr ''Re:Hello'',
          ''text_plain'' \<mapsto> VStr ''Hello again, I have pushed the fix and the nightly build passes now. Let me know.'']" "''Hello again, I have pushed the fix and the nightly build passes now. Let me know.''", OF h1 h2 h3 h4]
  from t body obtain ex where
    ex: "create_training_examples [[''subject'' \<mapsto> VStr ''Re:Hello'',
          ''text_plain'' \<mapsto> VStr ''Hello again, I have pushed the fix and the nightly build passes now. Let me know.'']] = Inr [ex]"
        "ex_instruction ex = ''Write a professional email about: Re:Hello''"
        "\<forall>examples. map_of (create_statistics (ex # examples)) ''reply_emails'' =
           Some (1 + int (length (filter (\<lambda>t. prefix ''Re:'' t \<or> prefix ''RE:'' t)
                  (map (\<lambda>ex. m_subject (ex_metadata ex)) examples))))"
    by (auto simp: py_get_def)
  from ex(3) have "map_of (create_statistics [ex]) ''reply_emails'' = Some 1"
    using spec[OF ex(3), of "[]"] by simp
  with ex(1,2) t h1 h2 h3 show ?thesis
    by blast
qed

section \<open>The driver\<close>

lemma path_join_inject: "path_join d a = path_join d b \<longleftrightarrow> a = b"
  by (simp add: path_join_def)

lemma save_dataset_files:
  "save_dataset fl user_id order now examples output_dir format fs =
     (let formatted =
            (if format = ''alpaca'' then map FAlpaca (create_alpaca_format examples)
             else if format = ''chat'' then map FChat (create_chat_format examples)
             else map FRaw examples);
          train = fst (split_dataset fl order formatted default_train_ratio);
          val = snd (split_dataset fl order formatted default_train_ratio)
      in fs(path_join output_dir (''train_'' @ format @ ''.jsonl'') \<mapsto> JsonLines train,
            path_join output_dir (''val_'' @ format @ ''.jsonl'') \<mapsto> JsonLines val,
            path_join output_dir (''dataset_'' @ format @ ''.json'') \<mapsto>
              JsonDoc train val
                \<lparr> d_user_id = user_id, d_total_examples = int (length formatted),
                  d_train_examples = int (length train), d_val_examples = int (length val),
                  d_format = format, d_created_at = now \<rparr>))"
  by (simp add: save_dataset_def Let_def split: prod.splits)

text \<open>
  The four ways a run goes when the batch returns or raises: status 1 and the file
  system unchanged when the connection fails, when fewer emails are fetched than
  \<^verbatim>\<open>--min-emails\<close>, and when the batch returns no example or raises; status 0 and the
  three files of each selected format when the batch returns at least one example.
\<close>

lemma main_cases:
  "(\<not> connect_ok e \<longrightarrow>
      exit_status (main e a fs) = 1 \<and> files_after (main e a fs) = fs)
   \<and> (connect_ok e \<and> int (length (fetch_sent_emails e)) < arg_min_emails a \<longrightarrow>
      exit_status (main e a fs) = 1 \<and> files_after (main e a fs) = fs)
   \<and> (connect_ok e \<and> arg_min_emails a \<le> int (length (fetch_sent_emails e))
        \<and> (create_training_examples (fetch_sent_emails e) = Inr []
             \<or> create_training_examples (fetch_sent_emails e) = Inl err) \<longrightarrow>
      exit_status (main e a fs) = 1 \<and> files_after (main e a fs) = fs)
   \<and> (connect_ok e \<and> arg_min_emails a \<le> int (length (fetch_sent_emails e))
        \<and> create_training_examples (fetch_sent_emails e) = Inr examples \<and> examples \<noteq> [] \<longrightarrow>
      exit_status (main e a fs) = 0
      \<and> (arg_format a \<in> {OnlyAlpaca, Both} \<longrightarrow>
            {path_join (arg_output a) ''train_alpaca.jsonl'',
             path_join (arg_output a) ''val_alpaca.jsonl'',
             path_join (arg_output a) ''dataset_alpaca.json''} \<subseteq> dom (files_after (main e a fs))
            \<and> files_after (main e a fs) (path_join (arg_output a) ''train_alpaca.jsonl'') =
                Some (JsonLines (fst (split_dataset (float_round e) (shuffle_order e ''alpaca'')
                        (map FAlpaca (create_alpaca_format examples)) default_train_ratio)))
            \<and> files_after (main e a fs) (path_join (arg_output a) ''val_alpaca.jsonl'') =
                Some (JsonLines (snd (split_dataset (float_round e) (shuffle_order e ''alpaca'')
                        (map FAlpaca (create_alpaca_format examples)) default_train_ratio))))
      \<and> (arg_format a \<in> {OnlyChat, Both} \<longrightarrow>
            {path_join (arg_output a) ''train_chat.jsonl'',
             path_join (arg_output a) ''val_chat.jsonl'',
             path_join (arg_output a) ''dataset_chat.json''} \<subseteq> dom (files_after (main e a fs))
            \<and> files_after (main e a fs) (path_join (arg_output a) ''train_chat.jsonl'') =
                Some (JsonLines (fst (split_dataset (float_round e) (shuffle_order e ''chat'')
                        (map FChat (create_chat_format examples)) default_train_ratio)))
            \<and> files_after (main e a fs) (path_join (arg_output a) ''val_chat.jsonl'') =
                Some (JsonLines (snd (split_dataset (float_round e) (shuffle_order e ''chat'')
                        (map FChat (create_chat_format examples)) default_train_ratio)))))"
proof -
  have c1: "\<not> connect_ok e \<Longrightarrow> exit_status (main e a fs) = 1 \<and> files_after (main e a fs) = fs"
    by (simp add: main_def)
  have c2: "connect_ok e \<Longrightarrow> int (length (fetch_sent_emails e)) < arg_min_emails a \<Longrightarrow>
            exit_status (main e a fs) = 1 \<and> files_after (main e a fs) = fs"
    by (simp add: main_def Let_def)
  have c3: "connect_ok e \<Longrightarrow> arg_min_emails a \<le> int (length (fetch_sent_emails e)) \<Longrightarrow>
            create_training_examples (fetch_sent_emails e) = Inr []
              \<or> create_training_examples (fetch_sent_emails e) = Inl err \<Longrightarrow>
            exit_status (main e a fs) = 1 \<and> files_after (main e a fs) = fs"
    by (auto simp: main_def Let_def)
  have run: "main e a fs =
      \<lparr> exit_status = 0,
        files_after =
          (let fs1 = (if arg_format a \<in> {OnlyAlpaca, Both}
                      then save_dataset (float_round e) (arg_user_id a) (shuffle_order e ''alpaca'')
                             (clock e ''alpaca'') examples (arg_output a) ''alpaca'' fs
                      else fs)
           in if arg_format a \<in> {OnlyChat, Both}
              then save_dataset (float_round e) (arg_user_id a) (shuffle_order e ''chat'')
                     (clock e ''chat'') examples (arg_output a) ''chat'' fs1
              else fs1),
        conn_closed = True \<rparr>"
    if "connect_ok e" "arg_min_emails a \<le> int (length (fetch_sent_emails e))"
       "create_training_examples (fetch_sent_emails e) = Inr examples" "examples \<noteq> []"
    using that by (simp add: main_def Let_def)
  have c4: "exit_status (main e a fs) = 0"
    if "connect_ok e" "arg_min_emails a \<le> int (length (fetch_sent_emails e))"
       "create_training_examples (fetch_sent_emails e) = Inr examples" "examples \<noteq> []"
    using run[OF that] by simp
  have c5: "{path_join (arg_output a) ''train_alpaca.jsonl'',
             path_join (arg_output a) ''val_alpaca.jsonl'',
             path_join (arg_output a) ''dataset_alpaca.json''} \<subseteq> dom (files_after (main e a fs))
            \<and> files_after (main e a fs) (path_join (arg_output a) ''train_alpaca.jsonl'') =
                Some (JsonLines (fst (split_dataset (float_round e) (shuffle_order e ''alpaca'')
                        (map FAlpaca (create_alpaca_format examples)) default_train_ratio)))
            \<and> files_after (main e a fs) (path_join (arg_output a) ''val_alpaca.jsonl'') =
                Some (JsonLines (snd (split_dataset (float_round e) (shuffle_order e ''alpaca'')
                        (map FAlpaca (create_alpaca_format examples)) default_train_ratio)))"
    if "connect_ok e" "arg_min_emails a \<le> int (length (fetch_sent_emails e))"
       "create_training_examples (fetch_sent_emails e) = Inr examples" "examples \<noteq> []"
       "arg_format a \<in> {OnlyAlpaca, Both}"
    using that(5) unfolding run[OF that(1-4)]
    by (cases "arg_format a") (simp_all add: save_dataset_files Let_def path_join_inject)
  have c6: "{path_join (arg_output a) ''train_chat.jsonl'',
             path_join (arg_output a) ''val_chat.jsonl'',
             path_join (arg_output a) ''dataset_chat.json''} \<subseteq> dom (files_after (main e a fs))
            \<and> files_after (main e a fs) (path_join (arg_output a) ''train_chat.jsonl'') =
                Some (JsonLines (fst (split_dataset (float_round e) (shuffle_order e ''chat'')
                        (map FChat (create_chat_format examples)) default_train_ratio)))
            \<and> files_after (main e a fs) (path_join (arg_output a) ''val_chat.jsonl'') =
                Some (JsonLines (snd (split_dataset (float_round e) (shuffle_order e ''chat'')
                        (map FChat (create_chat_format examples)) default_train_ratio)))"
    if "connect_ok e" "arg_min_emails a \<le> int (length (fetch_sent_emails e))"
       "create_training_examples (fetch_sent_emails e) = Inr examples" "examples \<noteq> []"
       "arg_format a \<in> {OnlyChat, Both}"
    using that(5) unfolding run[OF that(1-4)]
    by (cases "arg_format a") (simp_all add: save_dataset_files Let_def path_join_inject)
  show ?thesis
    using c1 c2 c3 c4 c5 c6 by blast
qed

text \<open>
  Claim C7. The run ends with a non-zero status, and writes nothing, when the
  connection fails, when fewer emails are fetched than \<^verbatim>\<open>--min-emails\<close>, or when no
  valid example is left after cleaning; otherwise it writes the output files and ends
  with status 0. The code does end with status 1, and without writing, in a run that
  meets none of the three conditions: the connection opens, 60 emails are fetched where
  50 are required, every body is kept by the cleaning, and one of the rows has a NULL
  subject. The batch raises \<^verbatim>\<open>AttributeError\<close> on that row, nothing catches it in
  \<^verbatim>\<open>main\<close>, and the process ends after the \<^verbatim>\<open>finally\<close> block.
\<close>

theorem main_null_subject_exit:
  "connect_ok \<lparr> connect_ok = True,
          query_rows = Some (replicate 59
                (VInt 7, VStr ''Status'',
                 VStr ''The build is green again and the release notes are ready for your review.'',
                 VNone, VNone, VTime ''2024-05-01 10:00:00'', VStr ''me@example.com'',
                 VStr ''you@example.com'')
              @ [(VInt 8, VNone,
                 VStr ''Hello team, the project update is attached. Please review it before our meeting.'',
                 VNone, VNone, VTime ''2024-05-01 11:00:00'', VStr ''me@example.com'',
                 VStr ''you@example.com'')]),
          shuffle_order = (\<lambda>f. [0..<59]), clock = (\<lambda>f. ''2024-05-02T08:00:00''),
          float_round = (\<lambda>x. x) \<rparr>
   \<and> length (fetch_sent_emails \<lparr> connect_ok = True,
          query_rows = Some (replicate 59
                (VInt 7, VStr ''Status'',
                 VStr ''The build is green again and the release notes are ready for your review.'',
                 VNone, VNone, VTime ''2024-05-01 10:00:00'', VStr ''me@example.com'',
                 VStr ''you@example.com'')
              @ [(VInt 8, VNone,
                 VStr ''Hello team, the project update is attached. Please review it before our meeting.'',
                 VNone, VNone, VTime ''2024-05-01 11:00:00'', VStr ''me@example.com'',
                 VStr ''you@example.com'')]),
          shuffle_order = (\<lambda>f. [0..<59]), clock = (\<lambda>f. ''2024-05-02T08:00:00''),
          float_round = (\<lambda>x. x) \<rparr>) = 60
   \<and> arg_min_emails \<lparr> arg_db_url = ''postgres://db'', arg_user_id = ''u1'', arg_output = ''out'',
          arg_min_emails = 50, arg_format = Both \<rparr> \<le> int (length (fetch_sent_emails \<lparr> connect_ok = True,
          query_rows = Some (replicate 59
                (VInt 7, VStr ''Status'',
                 VStr ''The build is green again and the release notes are ready for your review.'',
                 VNone, VNone, VTime ''2024-05-01 10:00:00'', VStr ''me@example.com'',
                 VStr ''you@example.com'')
              @ [(VInt 8, VNone,
                 VStr ''Hello team, the project update is attached. Please review it before our meeting.'',
                 VNone, VNone, VTime ''2024-05-01 11:00:00'', VStr ''me@example.com'',
                 VStr ''you@example.com'')]),
          shuffle_order = (\<lambda>f. [0..<59]), clock = (\<lambda>f. ''2024-05-02T08:00:00''),
          float_round = (\<lambda>x. x) \<rparr>))
   \<and> length (filter (\<lambda>email. \<exists>body. body \<noteq> []
              \<and> clean_email_text (py_get email ''text_plain'' (VStr [])) = Inr body)
         (fetch_sent_emails \<lparr> connect_ok = True,
          query_rows = Some (replicate 59
                (VInt 7, VStr ''Status'',
                 VStr ''The build is green again and the release notes are ready for your review.'',
                 VNone, VNone, VTime ''2024-05-01 10:00:00'', VStr ''me@example.com'',
                 VStr ''you@example.com'')
              @ [(VInt 8, VNone,
                 VStr ''Hello team, the project update is attached. Please review it before our meeting.'',
                 VNone, VNone, VTime ''2024-05-01 11:00:00'', VStr ''me@example.com'',
                 VStr ''you@example.com'')]),
          shuffle_order = (\<lambda>f. [0..<59]), clock = (\<lambda>f. ''2024-05-02T08:00:00''),
          float_round = (\<lambda>x. x) \<rparr>)) = 60
   \<and> create_training_examples (fetch_sent_emails \<lparr> connect_ok = True,
          query_rows = Some (replicate 59
                (VInt 7, VStr ''Status'',
                 VStr ''The build is green again and the release notes are ready for your review.'',
                 VNone, VNone, VTime ''2024-05-01 10:00:00'', VStr ''me@example.com'',
                 VStr ''you@example.com'')
              @ [(VInt 8, VNone,
                 VStr ''Hello team, the project update is attached. Please review it before our meeting.'',
                 VNone, VNone, VTime ''2024-05-01 11:00:00'', VStr ''me@example.com'',
                 VStr ''you@example.com'')]),
          shuffle_order = (\<lambda>f. [0..<59]), clock = (\<lambda>f. ''2024-05-02T08:00:00''),
          float_round = (\<lambda>x. x) \<rparr>) = Inl AttributeError
   \<and> exit_status (main \<lparr> connect_ok = True,
          query_rows = Some (replicate 59
                (VInt 7, VStr ''Status'',
                 VStr ''The build is green again and the release notes are ready for your review.'',
                 VNone, VNone, VTime ''2024-05-01 10:00:00'', VStr ''me@example.com'',
                 VStr ''you@example.com'')
              @ [(VInt 8, VNone,
                 VStr ''Hello team, the project update is attached. Please review it before our meeting.'',
                 VNone, VNone, VTime ''2024-05-01 11:00:00'', VStr ''me@example.com'',
                 VStr ''you@example.com'')]),
          shuffle_order = (\<lambda>f. [0..<59]), clock = (\<lambda>f. ''2024-05-02T08:00:00''),
          float_round = (\<lambda>x. x) \<rparr> \<lparr> arg_db_url = ''postgres://db'', arg_user_id = ''u1'', arg_output = ''out'',
          arg_min_emails = 50, arg_format = Both \<rparr> Map.empty) = 1
   \<and> files_after (main \<lparr> connect_ok = True,
          query_rows = Some (replicate 59
                (VInt 7, VStr ''Status'',
                 VStr ''The build is green again and the release notes are ready for your review.'',
                 VNone, VNone, VTime ''2024-05-01 10:00:00'', VStr ''me@example.com'',
                 VStr ''you@example.com'')
              @ [(VInt 8, VNone,
                 VStr ''Hello team, the project update is attached. Please review it before our meeting.'',
                 VNone, VNone, VTime ''2024-05-01 11:00:00'', VStr ''me@example.com'',
                 VStr ''you@example.com'')]),
          shuffle_order = (\<lambda>f. [0..<59]), clock = (\<lambda>f. ''2024-05-02T08:00:00''),
          float_round = (\<lambda>x. x) \<rparr> \<lparr> arg_db_url = ''postgres://db'', arg_user_id = ''u1'', arg_output = ''out'',
          arg_min_emails = 50, arg_format = Both \<rparr> Map.empty) = Map.empty"
proof -
  have g: "clean_email_text (VStr ''The build is green again and the release notes are ready for your review.'')
      = Inr ''The build is green again and the release notes are ready for your review.''"
    by code_simp
  have b: "clean_email_text (VStr ''Hello team, the project update is attached. Please review it before our meeting.'')
      = Inr ''Hello team, the project update is attached. Please review it before our meeting.''"
    by code_simp
  have n: "length (fetch_sent_emails \<lparr> connect_ok = True,
          query_rows = Some (replicate 59
                (VInt 7, VStr ''Status'',
                 VStr ''The build is green again and the release notes are ready for your review.'',
                 VNone, VNone, VTime ''2024-05-01 10:00:00'', VStr ''me@example.com'',
                 VStr ''you@example.com'')
              @ [(VInt 8, VNone,
                 VStr ''Hello team, the project update is attached. Please review it before our meeting.'',
                 VNone, VNone, VTime ''2024-05-01 11:00:00'', VStr ''me@example.com'',
                 VStr ''you@example.com'')]),
          shuffle_order = (\<lambda>f. [0..<59]), clock = (\<lambda>f. ''2024-05-02T08:00:00''),
          float_round = (\<lambda>x. x) \<rparr>) = 60"
    by (simp add: fetch_sent_emails_def)
  have valid: "length (filter (\<lambda>email. \<exists>body. body \<noteq> []
              \<and> clean_email_text (py_get email ''text_plain'' (VStr [])) = Inr body)
         (fetch_sent_emails \<lparr> connect_ok = True,
          query_rows = Some (replicate 59
                (VInt 7, VStr ''Status'',
                 VStr ''The build is green again and the release notes are ready for your review.'',
                 VNone, VNone, VTime ''2024-05-01 10:00:00'', VStr ''me@example.com'',
                 VStr ''you@example.com'')
              @ [(VInt 8, VNone,
                 VStr ''Hello team, the project update is attached. Please review it before our meeting.'',
                 VNone, VNone, VTime ''2024-05-01 11:00:00'', VStr ''me@example.com'',
                 VStr ''you@example.com'')]),
          shuffle_order = (\<lambda>f. [0..<59]), clock = (\<lambda>f. ''2024-05-02T08:00:00''),
          float_round = (\<lambda>x. x) \<rparr>)) = 60"
    by (simp add: fetch_sent_emails_def py_get_def g b)
  have raised: "create_training_examples (fetch_sent_emails \<lparr> connect_ok = True,
          query_rows = Some (replicate 59
                (VInt 7, VStr ''Status'',
                 VStr ''The build is green again and the release notes are ready for your review.'',
                 VNone, VNone, VTime ''2024-05-01 10:00:00'', VStr ''me@example.com'',
                 VStr ''you@example.com'')
              @ [(VInt 8, VNone,
                 VStr ''Hello team, the project update is attached. Please review it before our meeting.'',
                 VNone, VNone, VTime ''2024-05-01 11:00:00'', VStr ''me@example.com'',
                 VStr ''you@example.com'')]),
          shuffle_order = (\<lambda>f. [0..<59]), clock = (\<lambda>f. ''2024-05-02T08:00:00''),
          float_round = (\<lambda>x. x) \<rparr>) = Inl AttributeError"
    by code_simp
  show ?thesis
    unfolding n valid
    by (simp add: main_def Let_def raised n)
qed

end
